theory Spec2Isabelle
  imports Main "HOL-Library.Multiset"
begin

section \<open>JavaScript strings\<close>

text \<open>
  A JavaScript string is a sequence of UTF-16 code units. The plugin's tables hold Chinese
  text and its regular expressions (written without the \<open>u\<close> flag) work on code units, so
  a string is modelled as the list of its code units. \<open>js\<close> embeds an ASCII literal.
\<close>

type_synonym codeunit = nat
type_synonym jsstring = "codeunit list"

definition js :: "string \<Rightarrow> jsstring" where
  "js s = map of_char s"

section \<open>The host's file tree\<close>

text \<open>
  The host hands out \<open>TFile\<close> and \<open>TFolder\<close> objects. A file carries its path, base name,
  extension and the two timestamps of \<open>stat\<close> (epoch milliseconds); a folder carries its
  path, name and children. \<open>'children' in x\<close> holds exactly for a folder.
\<close>

record TFile =
  path :: jsstring
  basename :: jsstring
  extension :: jsstring
  mtime :: int
  ctime :: int

datatype TAbstractFile =
    File TFile
  | Folder (folder_path: jsstring) (folder_name: jsstring) (children: "TAbstractFile list")

text \<open>
  \<open>app.vault.getAbstractFileByPath\<close> belongs to the host and is a parameter of the model:
  for a path it throws (\<open>Inl\<close>), returns \<open>null\<close> (\<open>Inr None\<close>) or returns an object.
\<close>

datatype thrown = Thrown

type_synonym vault = "jsstring \<Rightarrow> thrown + TAbstractFile option"

section \<open>Folder statistics\<close>

record subfolderStat =
  name :: jsstring
  subPath :: jsstring
  files :: int
  "notes" :: int

record folderStats =
  totalFiles :: int
  totalNotes :: int
  subfolderStats :: "subfolderStat list"

definition zeroed :: folderStats where
  "zeroed = \<lparr>totalFiles = 0, totalNotes = 0, subfolderStats = []\<rparr>"

text \<open>
  The body of \<open>children.forEach\<close> in \<open>countFilesInFolder\<close>, threading the mutable \<open>stats\<close>
  object. \<open>recurse\<close> is the recursive call \<open>this.countFilesInFolder(child.path)\<close>; it yields
  \<open>None\<close> when that call does not return.
\<close>

fun forEachChild ::
  "(jsstring \<Rightarrow> folderStats option) \<Rightarrow> TAbstractFile list \<Rightarrow> folderStats \<Rightarrow> folderStats option"
where
  "forEachChild recurse [] stats = Some stats"
| "forEachChild recurse (File f # rest) stats =
     forEachChild recurse rest
       (stats\<lparr>totalFiles := totalFiles stats + 1,
              totalNotes := (if extension f = js ''md'' then totalNotes stats + 1
                             else totalNotes stats)\<rparr>)"
| "forEachChild recurse (Folder cp cn cs # rest) stats =
     (case recurse cp of
        None \<Rightarrow> None
      | Some subStats \<Rightarrow>
          forEachChild recurse rest
            (stats\<lparr>totalFiles := totalFiles stats + totalFiles subStats,
                   totalNotes := totalNotes stats + totalNotes subStats,
                   subfolderStats := subfolderStats stats @
                     [\<lparr>name = cn, subPath = cp,
                       files = totalFiles subStats, notes = totalNotes subStats\<rparr>]\<rparr>))"

text \<open>
  \<open>countFilesInFolder\<close> looks every subfolder up again by its path, so its recursion follows
  the host's answers, not the structure of an object. The first argument bounds the depth
  of the recursion; \<open>None\<close> means the bound was reached before the call returned. A throwing
  lookup is caught by the \<open>try\<close> of the call that made it.
\<close>

primrec countFilesInFolder :: "nat \<Rightarrow> vault \<Rightarrow> jsstring \<Rightarrow> folderStats option" where
  "countFilesInFolder 0 host folderPath = None"
| "countFilesInFolder (Suc fuel) host folderPath =
     (case host folderPath of
        Inl err \<Rightarrow> Some zeroed
      | Inr None \<Rightarrow> Some zeroed
      | Inr (Some (File f)) \<Rightarrow> Some zeroed
      | Inr (Some (Folder fp fn cs)) \<Rightarrow>
          forEachChild (countFilesInFolder fuel host) cs zeroed)"

text \<open>
  A host whose hierarchy below an object is a tree: every subfolder is what the host
  returns for that subfolder's path.
\<close>

fun treeLike :: "vault \<Rightarrow> TAbstractFile \<Rightarrow> bool" where
  "treeLike host (File f) = True"
| "treeLike host (Folder fp fn cs) =
     (\<forall>c \<in> set cs. treeLike host c \<and>
        (case c of File f \<Rightarrow> True | Folder cp cn ccs \<Rightarrow> host cp = Inr (Some c)))"

fun depth :: "TAbstractFile \<Rightarrow> nat" where
  "depth (File f) = 0"
| "depth (Folder fp fn cs) = Suc (foldr (\<lambda>c d. max (depth c) d) cs 0)"

fun isFile :: "TAbstractFile \<Rightarrow> bool" where
  "isFile (File f) = True"
| "isFile (Folder fp fn cs) = False"

fun isNote :: "TAbstractFile \<Rightarrow> bool" where
  "isNote (File f) = (extension f = js ''md'')"
| "isNote (Folder fp fn cs) = False"

fun isFolder :: "TAbstractFile \<Rightarrow> bool" where
  "isFolder (File f) = False"
| "isFolder (Folder fp fn cs) = True"

text \<open>The entry pushed onto \<open>subfolderStats\<close> for a subfolder and its statistics.\<close>

definition subfolderEntry :: "TAbstractFile \<Rightarrow> folderStats \<Rightarrow> subfolderStat" where
  "subfolderEntry c s =
     \<lparr>name = folder_name c, subPath = folder_path c, files = totalFiles s, notes = totalNotes s\<rparr>"

text \<open>The counters of a result are ordered: notes are files.\<close>

definition wellCounted :: "folderStats \<Rightarrow> bool" where
  "wellCounted s =
     (0 \<le> totalNotes s \<and> totalNotes s \<le> totalFiles s \<and>
      list_all (\<lambda>e. 0 \<le> notes e \<and> notes e \<le> files e) (subfolderStats s))"

text \<open>
  A small vault used to exercise the theorems: folder \<open>a\<close> holds \<open>a/x.md\<close>, \<open>a/y.txt\<close> and
  the folder \<open>a/b\<close>, which holds \<open>a/b/z.md\<close>. The path \<open>locked\<close> makes the lookup throw.
\<close>

definition demoFile :: "string \<Rightarrow> string \<Rightarrow> string \<Rightarrow> int \<Rightarrow> TFile" where
  "demoFile p b e t = \<lparr>path = js p, basename = js b, extension = js e, mtime = t, ctime = t\<rparr>"

definition demoSub :: TAbstractFile where
  "demoSub = Folder (js ''a/b'') (js ''b'') [File (demoFile ''a/b/z.md'' ''z'' ''md'' 3000)]"

definition demoRoot :: TAbstractFile where
  "demoRoot = Folder (js ''a'') (js ''a'')
     [File (demoFile ''a/x.md'' ''x'' ''md'' 1000), demoSub,
      File (demoFile ''a/y.txt'' ''y'' ''txt'' 2000)]"

definition demoVault :: vault where
  "demoVault p =
     (if p = js ''a'' then Inr (Some demoRoot)
      else if p = js ''a/b'' then Inr (Some demoSub)
      else if p = js ''a/x.md'' then Inr (Some (File (demoFile ''a/x.md'' ''x'' ''md'' 1000)))
      else if p = js ''locked'' then Inl Thrown
      else Inr None)"

section \<open>Localization\<close>

datatype language = En | Zh

record localized =
  en :: jsstring
  zh :: jsstring

fun pick :: "language \<Rightarrow> localized \<Rightarrow> jsstring" where
  "pick En entry = en entry"
| "pick Zh entry = zh entry"

text \<open>
  The table \<open>texts\<close> of \<open>getLocalizedText\<close> in \<open>src/main.ts\<close>, in the order of the source.
  Text outside ASCII is given by its UTF-16 code units.
\<close>

definition texts :: "(jsstring \<times> localized) list" where
  "texts =
    [(js ''january'', \<lparr>en = js ''January'', zh = [19968, 26376]\<rparr>),
     (js ''february'', \<lparr>en = js ''February'', zh = [20108, 26376]\<rparr>),
     (js ''march'', \<lparr>en = js ''March'', zh = [19977, 26376]\<rparr>),
     (js ''april'', \<lparr>en = js ''April'', zh = [22235, 26376]\<rparr>),
     (js ''may'', \<lparr>en = js ''May'', zh = [20116, 26376]\<rparr>),
     (js ''june'', \<lparr>en = js ''June'', zh = [20845, 26376]\<rparr>),
     (js ''july'', \<lparr>en = js ''July'', zh = [19971, 26376]\<rparr>),
     (js ''august'', \<lparr>en = js ''August'', zh = [20843, 26376]\<rparr>),
     (js ''september'', \<lparr>en = js ''September'', zh = [20061, 26376]\<rparr>),
     (js ''october'', \<lparr>en = js ''October'', zh = [21313, 26376]\<rparr>),
     (js ''november'', \<lparr>en = js ''November'', zh = [21313, 19968, 26376]\<rparr>),
     (js ''december'', \<lparr>en = js ''December'', zh = [21313, 20108, 26376]\<rparr>),
     (js ''files'', \<lparr>en = js ''files'', zh = [25991, 20214]\<rparr>),
     (js ''notes'', \<lparr>en = js ''notes'', zh = [31508, 35760]\<rparr>),
     (js ''filesAndNotes'', \<lparr>en = js ''files, notes'', zh = [25991, 20214, 65292, 31508, 35760]\<rparr>),
     (js ''totalFiles'', \<lparr>en = js ''Total'', zh = [24635, 35745]\<rparr>),
     (js ''filesTotal'', \<lparr>en = js ''files'', zh = [20010, 25991, 20214]\<rparr>),
     (js ''notesTotal'', \<lparr>en = js ''notes'', zh = [20010, 31508, 35760]\<rparr>),
     (js ''includingSubdirectories'', \<lparr>en = js ''including subdirectories'', zh = [65288, 21253, 21547, 23376, 30446, 24405, 65289]\<rparr>),
     (js ''sunday'', \<lparr>en = js ''Sun'', zh = [26085]\<rparr>),
     (js ''monday'', \<lparr>en = js ''Mon'', zh = [19968]\<rparr>),
     (js ''tuesday'', \<lparr>en = js ''Tue'', zh = [20108]\<rparr>),
     (js ''wednesday'', \<lparr>en = js ''Wed'', zh = [19977]\<rparr>),
     (js ''thursday'', \<lparr>en = js ''Thu'', zh = [22235]\<rparr>),
     (js ''friday'', \<lparr>en = js ''Fri'', zh = [20116]\<rparr>),
     (js ''saturday'', \<lparr>en = js ''Sat'', zh = [20845]\<rparr>),
     (js ''notesCalendar'', \<lparr>en = js ''Notes Calendar'', zh = [31508, 35760, 26085, 21382]\<rparr>),
     (js ''yearView'', \<lparr>en = js ''Year View'', zh = [24180, 35270, 22270]\<rparr>),
     (js ''monthView'', \<lparr>en = js ''Month View'', zh = [26376, 35270, 22270]\<rparr>),
     (js ''locatedToFile'', \<lparr>en = js ''Located to file'', zh = [24050, 23450, 20301, 21040, 25991, 20214]\<rparr>),
     (js ''jumpedToMonthView'', \<lparr>en = js ''Jumped to'', zh = [24050, 36339, 36716, 21040]\<rparr>),
     (js ''monthViewAbbr'', \<lparr>en = js ''month view'', zh = [26376, 35270, 22270]\<rparr>),
     (js ''switchView'', \<lparr>en = js ''Switch view'', zh = [20999, 25442, 35270, 22270]\<rparr>),
     (js ''currentView'', \<lparr>en = js ''Current'', zh = [24403, 21069]\<rparr>),
     (js ''yearToMonth'', \<lparr>en = [55357, 56517], zh = [55357, 56517]\<rparr>),
     (js ''monthToYear'', \<lparr>en = [55357, 56518], zh = [55357, 56518]\<rparr>),
     (js ''switchViewTooltip'', \<lparr>en = js ''Click to switch view (Current: {current})'', zh = [28857, 20987, 20999, 25442, 35270, 22270, 32, 40, 24403, 21069, 58, 32, 123, 99, 117, 114, 114, 101, 110, 116, 125, 41]\<rparr>)]"

text \<open>
  \<open>texts[key]?.[language] || key\<close>: the entry's text for the language, and the key when the
  table has no such key or the text is the empty string. A key that names a property
  inherited from \<open>Object.prototype\<close> finds an object without \<open>en\<close> and \<open>zh\<close>, which gives the
  key as well, so such keys behave as absent ones.
\<close>

definition getLocalizedText :: "jsstring \<Rightarrow> language \<Rightarrow> jsstring" where
  "getLocalizedText key language =
     (case map_of texts key of
        None \<Rightarrow> key
      | Some entry \<Rightarrow> (if pick language entry = [] then key else pick language entry))"

definition getMonthNames :: "language \<Rightarrow> jsstring list" where
  "getMonthNames language =
     [getLocalizedText (js ''january'') language,
      getLocalizedText (js ''february'') language,
      getLocalizedText (js ''march'') language,
      getLocalizedText (js ''april'') language,
      getLocalizedText (js ''may'') language,
      getLocalizedText (js ''june'') language,
      getLocalizedText (js ''july'') language,
      getLocalizedText (js ''august'') language,
      getLocalizedText (js ''september'') language,
      getLocalizedText (js ''october'') language,
      getLocalizedText (js ''november'') language,
      getLocalizedText (js ''december'') language]"

definition getWeekdayNames :: "language \<Rightarrow> jsstring list" where
  "getWeekdayNames language =
     [getLocalizedText (js ''sunday'') language,
      getLocalizedText (js ''monday'') language,
      getLocalizedText (js ''tuesday'') language,
      getLocalizedText (js ''wednesday'') language,
      getLocalizedText (js ''thursday'') language,
      getLocalizedText (js ''friday'') language,
      getLocalizedText (js ''saturday'') language]"

section \<open>Settings\<close>

datatype viewType = Month | Year

datatype sortOrder = Desc | Asc

record NoteDatesSettings =
  showCreationDate :: bool
  showModificationDate :: bool
  dateFormat :: jsstring
  enableCalendarView :: bool
  calendarFirstDayOfWeek :: int
  showFileCount :: bool
  calendarViewType :: viewType
  sortOrder :: sortOrder
  showSubdirectoryStats :: bool
  language :: language

definition DEFAULT_SETTINGS :: NoteDatesSettings where
  "DEFAULT_SETTINGS =
     \<lparr>showCreationDate = True, showModificationDate = True, dateFormat = js ''YYYY-MM-DD'',
      enableCalendarView = True, calendarFirstDayOfWeek = 0, showFileCount = True,
      calendarViewType = Year, sortOrder = Desc, showSubdirectoryStats = True,
      language = Zh\<rparr>"

text \<open>
  The plugin object, as far as saving is concerned: the settings, the language seen at the
  last load or save (\<open>lastLanguage\<close>, a field of the variant in \<open>src/unnamed/part_000\<close>
  only), what \<open>saveData\<close> last wrote, and the number of calls of \<open>updateAllFilesDisplay\<close>
  so far, which stands for the refresh of the file explorer.
\<close>

record plugin =
  settings :: NoteDatesSettings
  lastLanguage :: language
  savedData :: "NoteDatesSettings option"
  displayUpdates :: nat

definition saveData :: "NoteDatesSettings \<Rightarrow> plugin \<Rightarrow> plugin" where
  "saveData s p = p\<lparr>savedData := Some s\<rparr>"

definition updateAllFilesDisplay :: "plugin \<Rightarrow> plugin" where
  "updateAllFilesDisplay p = p\<lparr>displayUpdates := displayUpdates p + 1\<rparr>"

text \<open>\<open>saveSettings\<close> of \<open>src/main.ts\<close>: save, then refresh.\<close>

definition saveSettings :: "plugin \<Rightarrow> plugin" where
  "saveSettings p = updateAllFilesDisplay (saveData (settings p) p)"

text \<open>
  \<open>saveSettings(skipFileDisplayUpdate = false)\<close> of \<open>src/unnamed/part_000\<close>: save, record a
  changed language, and refresh only when the language changed and the caller did not
  ask to skip the refresh.
\<close>

definition saveSettings_tracked :: "bool \<Rightarrow> plugin \<Rightarrow> plugin" where
  "saveSettings_tracked skipFileDisplayUpdate p =
     (let p1 = saveData (settings p) p;
          languageChanged = (lastLanguage p1 \<noteq> language (settings p1));
          p2 = (if languageChanged then p1\<lparr>lastLanguage := language (settings p1)\<rparr> else p1)
      in if \<not> skipFileDisplayUpdate \<and> languageChanged then updateAllFilesDisplay p2 else p2)"

text \<open>A plugin state right after a save of the default settings.\<close>

definition demoPlugin :: plugin where
  "demoPlugin = \<lparr>settings = DEFAULT_SETTINGS, lastLanguage = Zh,
                  savedData = Some DEFAULT_SETTINGS, displayUpdates = 0\<rparr>"

section \<open>Sorting notes\<close>

text \<open>
  \<open>Array.prototype.sort\<close> with a comparator. The sort is stable (ECMAScript 2019), and for a
  comparator that orders by a key its result is determined: the elements in the
  comparator's order, equal ones in their original order. Insertion from the right
  computes it: the inserted element came before all the others, so it goes in front of
  the first element it does not follow.
\<close>

fun insertSorted :: "('a \<Rightarrow> 'a \<Rightarrow> int) \<Rightarrow> 'a \<Rightarrow> 'a list \<Rightarrow> 'a list" where
  "insertSorted cmp x [] = [x]"
| "insertSorted cmp x (y # ys) =
     (if cmp x y \<le> 0 then x # y # ys else y # insertSorted cmp x ys)"

definition arraySort :: "('a \<Rightarrow> 'a \<Rightarrow> int) \<Rightarrow> 'a list \<Rightarrow> 'a list" where
  "arraySort cmp xs = foldr (insertSorted cmp) xs []"

text \<open>The comparators \<open>(a, b) => b.stat.mtime - a.stat.mtime\<close> and its mirror image.\<close>

definition descending :: "TFile \<Rightarrow> TFile \<Rightarrow> int" where
  "descending a b = mtime b - mtime a"

definition ascending :: "TFile \<Rightarrow> TFile \<Rightarrow> int" where
  "ascending a b = mtime a - mtime b"

text \<open>The sort of \<open>renderTimeline\<close> and of each month of \<open>renderYearView\<close>.\<close>

definition sortNotes :: "sortOrder \<Rightarrow> TFile list \<Rightarrow> TFile list" where
  "sortNotes order ns = (if order = Desc then arraySort descending ns else arraySort ascending ns)"

text \<open>Notes for the examples: \<open>noteA\<close> and \<open>noteB\<close> share their modification time.\<close>

definition noteA :: TFile where
  "noteA = demoFile ''a.md'' ''a'' ''md'' 1000"

definition noteB :: TFile where
  "noteB = demoFile ''b.md'' ''b'' ''md'' 1000"

definition noteC :: TFile where
  "noteC = demoFile ''c.md'' ''c'' ''md'' 3000"

definition noteD :: TFile where
  "noteD = demoFile ''d.md'' ''d'' ''md'' 2000"

section \<open>Markdown preview\<close>

text \<open>
  \<open>String.prototype.replace\<close> with a global regular expression and the replacement \<open>$1\<close>.
  \<open>matchAt s\<close> says whether the expression matches at the start of \<open>s\<close>, and then gives the
  text of group 1 and what follows the match. The scan replaces the leftmost match,
  goes on behind it, and copies a character where nothing matches; after an empty match
  it steps one character ahead.
\<close>

fun replaceAll :: "(jsstring \<Rightarrow> (jsstring \<times> jsstring) option) \<Rightarrow> jsstring \<Rightarrow> jsstring" where
  "replaceAll matchAt [] = (case matchAt [] of Some (captured, rest) \<Rightarrow> captured | None \<Rightarrow> [])"
| "replaceAll matchAt (c # cs) =
     (case matchAt (c # cs) of
        Some (captured, rest) \<Rightarrow>
          (if length rest < length (c # cs) then captured @ replaceAll matchAt rest
           else captured @ c # replaceAll matchAt cs)
      | None \<Rightarrow> c # replaceAll matchAt cs)"

text \<open>The line terminators, which \<open>.\<close> does not match, and the characters of \<open>\s\<close>.\<close>

definition isLineTerminator :: "codeunit \<Rightarrow> bool" where
  "isLineTerminator c = (c = 10 \<or> c = 13 \<or> c = 8232 \<or> c = 8233)"

definition isWhiteSpace :: "codeunit \<Rightarrow> bool" where
  "isWhiteSpace c = (c \<in> set [9, 10, 11, 12, 13, 32, 160, 5760, 8192, 8193, 8194, 8195, 8196,
      8197, 8198, 8199, 8200, 8201, 8202, 8232, 8233, 8239, 8287, 12288, 65279])"

text \<open>
  \<open>(.*?)d\<close> for a closing delimiter \<open>d\<close>: the shortest run of characters other than line
  terminators that is followed by \<open>d\<close>.
\<close>

fun lazyUntil :: "jsstring \<Rightarrow> jsstring \<Rightarrow> (jsstring \<times> jsstring) option" where
  "lazyUntil d [] = (if d = [] then Some ([], []) else None)"
| "lazyUntil d (c # cs) =
     (if take (length d) (c # cs) = d then Some ([], drop (length d) (c # cs))
      else if isLineTerminator c then None
      else (case lazyUntil d cs of None \<Rightarrow> None | Some (captured, rest) \<Rightarrow> Some (c # captured, rest)))"

text \<open>\<open>d(.*?)d\<close> at the start of the string.\<close>

definition matchDelimited :: "jsstring \<Rightarrow> jsstring \<Rightarrow> (jsstring \<times> jsstring) option" where
  "matchDelimited d s = (if take (length d) s = d then lazyUntil d (drop (length d) s) else None)"

text \<open>
  \<open>\[([^\]]+)\]\([^)]+\)\<close> at the start of the string. Both character classes are greedy and
  exclude the character that must follow them, so each takes the longest run it can.
\<close>

definition matchLink :: "jsstring \<Rightarrow> (jsstring \<times> jsstring) option" where
  "matchLink s =
     (case s of
        [] \<Rightarrow> None
      | c # cs \<Rightarrow>
          (let label = takeWhile (\<lambda>x. x \<noteq> 93) cs;
               afterLabel = dropWhile (\<lambda>x. x \<noteq> 93) cs;
               url = takeWhile (\<lambda>x. x \<noteq> 41) (drop 2 afterLabel);
               afterUrl = dropWhile (\<lambda>x. x \<noteq> 41) (drop 2 afterLabel)
           in if c = 91 \<and> label \<noteq> [] \<and> take 2 afterLabel = [93, 40] \<and> url \<noteq> [] \<and> afterUrl \<noteq> []
              then Some (label, tl afterUrl) else None))"

text \<open>\<open>.replace(/^#+\s*/, '')\<close>: leading \<open>#\<close> characters and the white space after them.\<close>

definition removeHeaders :: "jsstring \<Rightarrow> jsstring" where
  "removeHeaders s =
     (if s \<noteq> [] \<and> hd s = 35 then dropWhile isWhiteSpace (dropWhile (\<lambda>x. x = 35) s) else s)"

definition removeBold :: "jsstring \<Rightarrow> jsstring" where
  "removeBold s = replaceAll (matchDelimited [42, 42]) s"

definition removeItalic :: "jsstring \<Rightarrow> jsstring" where
  "removeItalic s = replaceAll (matchDelimited [42]) s"

definition removeInlineCode :: "jsstring \<Rightarrow> jsstring" where
  "removeInlineCode s = replaceAll (matchDelimited [96]) s"

definition removeLinks :: "jsstring \<Rightarrow> jsstring" where
  "removeLinks s = replaceAll matchLink s"

text \<open>
  The chain applied to the first line in \<open>addFirstLineToTimeline\<close> and
  \<open>addFirstLineToModal\<close>, \<open>.slice(0, 100)\<close> included.
\<close>

definition stripMarkdown :: "jsstring \<Rightarrow> jsstring" where
  "stripMarkdown firstLine =
     take 100 (removeLinks (removeInlineCode (removeItalic (removeBold (removeHeaders firstLine)))))"

text \<open>
  A text in which the chain finds nothing to strip: it does not start with \<open>#\<close>, and none
  of the four patterns matches at any position. \<open>tails\<close> lists the positions of a text, as
  the remainders of the text from each position on.
\<close>

fun tails :: "'a list \<Rightarrow> 'a list list" where
  "tails [] = [[]]"
| "tails (x # xs) = (x # xs) # tails xs"

definition unmatched :: "(jsstring \<Rightarrow> (jsstring \<times> jsstring) option) \<Rightarrow> jsstring \<Rightarrow> bool" where
  "unmatched matchAt s = list_all (\<lambda>u. matchAt u = None) (tails s)"

definition noMarkup :: "jsstring \<Rightarrow> bool" where
  "noMarkup s =
     (take 1 s \<noteq> [35] \<and>
      unmatched (matchDelimited [42, 42]) s \<and>
      unmatched (matchDelimited [42]) s \<and>
      unmatched (matchDelimited [96]) s \<and>
      unmatched matchLink s)"

text \<open>
  The rest of the preview: \<open>content.split('\n')\<close>, the lines that are not blank after
  \<open>trim()\<close>, the first of them trimmed and stripped; no preview element is made for an
  empty result.
\<close>

fun splitLines :: "jsstring \<Rightarrow> jsstring list" where
  "splitLines [] = [[]]"
| "splitLines (c # cs) =
     (if c = 10 then [] # splitLines cs
      else (case splitLines cs of [] \<Rightarrow> [[c]] | l # ls \<Rightarrow> (c # l) # ls))"

definition trim :: "jsstring \<Rightarrow> jsstring" where
  "trim s = rev (dropWhile isWhiteSpace (rev (dropWhile isWhiteSpace s)))"

definition firstLinePreview :: "jsstring \<Rightarrow> jsstring option" where
  "firstLinePreview content =
     (case filter (\<lambda>line. length (trim line) > 0) (splitLines content) of
        [] \<Rightarrow> None
      | line # others \<Rightarrow>
          (let firstLine = stripMarkdown (trim line)
           in if length firstLine > 0 then Some firstLine else None))"

section \<open>Dates\<close>

text \<open>
  A \<open>Date\<close> object holds a time value, the milliseconds since the epoch in UTC. Its
  methods are those of the language, written with the abstract operations of ECMAScript
  (\<open>Day\<close>, \<open>YearFromTime\<close>, \<open>MonthFromTime\<close>, \<open>DateFromTime\<close>, \<open>WeekDay\<close>, \<open>MakeDay\<close>,
  \<open>MakeDate\<close>). The offset of local time belongs to the runtime: it is the parameter \<open>z\<close>, the
  function \<open>LocalTZA(t, isUTC)\<close> of ECMAScript, which gives the offset in milliseconds that
  is in force at the instant \<open>t\<close>. With \<open>isUTC\<close> true, \<open>t\<close> is a time value in UTC; with
  \<open>isUTC\<close> false, \<open>t\<close> is a local time, to be read with the offset that the zone applies
  to it. Time values are unbounded integers: the range check \<open>TimeClip\<close> is not modelled.
\<close>

type_synonym zone = "int \<Rightarrow> bool \<Rightarrow> int"

definition msPerDay :: int where
  "msPerDay = 86400000"

definition Day :: "int \<Rightarrow> int" where
  "Day t = t div msPerDay"

definition TimeWithinDay :: "int \<Rightarrow> int" where
  "TimeWithinDay t = t mod msPerDay"

definition DaysInYear :: "int \<Rightarrow> int" where
  "DaysInYear y =
     (if y mod 4 \<noteq> 0 then 365 else if y mod 100 \<noteq> 0 then 366
      else if y mod 400 \<noteq> 0 then 365 else 366)"

definition DayFromYear :: "int \<Rightarrow> int" where
  "DayFromYear y = 365 * (y - 1970) + (y - 1969) div 4 - (y - 1901) div 100 + (y - 1601) div 400"

text \<open>
  The year of a day number. ECMAScript specifies it as the largest \<open>y\<close> with
  \<open>DayFromYear y \<le> d\<close>; it is computed here from the cycles of 400, 100, 4 and 1 years
  counted from 1 January 1601, which is day \<open>-134774\<close>.
\<close>

definition YearFromDay :: "int \<Rightarrow> int" where
  "YearFromDay d =
     (let n = d + 134774;
          n400 = n div 146097;
          r400 = n mod 146097;
          n100 = min 3 (r400 div 36524);
          r100 = r400 - 36524 * n100;
          n4 = r100 div 1461;
          r4 = r100 mod 1461;
          n1 = min 3 (r4 div 365)
      in 1601 + 400 * n400 + 100 * n100 + 4 * n4 + n1)"

definition YearFromTime :: "int \<Rightarrow> int" where
  "YearFromTime t = YearFromDay (Day t)"

definition DayWithinYear :: "int \<Rightarrow> int" where
  "DayWithinYear t = Day t - DayFromYear (YearFromTime t)"

definition InLeapYear :: "int \<Rightarrow> int" where
  "InLeapYear t = (if DaysInYear (YearFromTime t) = 366 then 1 else 0)"

definition MonthFromTime :: "int \<Rightarrow> int" where
  "MonthFromTime t =
     (let d = DayWithinYear t; l = InLeapYear t
      in if d < 31 then 0
         else if d < 59 + l then 1
         else if d < 90 + l then 2
         else if d < 120 + l then 3
         else if d < 151 + l then 4
         else if d < 181 + l then 5
         else if d < 212 + l then 6
         else if d < 243 + l then 7
         else if d < 273 + l then 8
         else if d < 304 + l then 9
         else if d < 334 + l then 10
         else 11)"

definition DateFromTime :: "int \<Rightarrow> int" where
  "DateFromTime t =
     (let d = DayWithinYear t; l = InLeapYear t; m = MonthFromTime t
      in if m = 0 then d + 1
         else if m = 1 then d - 30
         else if m = 2 then d - 58 - l
         else if m = 3 then d - 89 - l
         else if m = 4 then d - 119 - l
         else if m = 5 then d - 150 - l
         else if m = 6 then d - 180 - l
         else if m = 7 then d - 211 - l
         else if m = 8 then d - 242 - l
         else if m = 9 then d - 272 - l
         else if m = 10 then d - 303 - l
         else d - 333 - l)"

definition WeekDay :: "int \<Rightarrow> int" where
  "WeekDay t = (Day t + 4) mod 7"

definition LocalTime :: "zone \<Rightarrow> int \<Rightarrow> int" where
  "LocalTime z t = t + z t True"

definition UTC :: "zone \<Rightarrow> int \<Rightarrow> int" where
  "UTC z t = t - z t False"

text \<open>A zone whose offset never changes.\<close>

definition fixedOffset :: "int \<Rightarrow> zone" where
  "fixedOffset tza = (\<lambda>t isUTC. tza)"

definition MakeTime :: "int \<Rightarrow> int \<Rightarrow> int \<Rightarrow> int \<Rightarrow> int" where
  "MakeTime hour minute sec ms = hour * 3600000 + minute * 60000 + sec * 1000 + ms"

text \<open>The day within its year on which a month starts; \<open>l\<close> is 1 in a leap year.\<close>

definition monthStart :: "int \<Rightarrow> int \<Rightarrow> int" where
  "monthStart m l =
     (if m = 0 then 0
      else if m = 1 then 31
      else if m = 2 then 59 + l
      else if m = 3 then 90 + l
      else if m = 4 then 120 + l
      else if m = 5 then 151 + l
      else if m = 6 then 181 + l
      else if m = 7 then 212 + l
      else if m = 8 then 243 + l
      else if m = 9 then 273 + l
      else if m = 10 then 304 + l
      else 334 + l)"

text \<open>
  \<open>MakeDay\<close>: months beyond 0..11 carry into the year, and the day of the month counts on
  from the first of the month, so that it may run over the end of the month or before
  its start.
\<close>

definition MakeDay :: "int \<Rightarrow> int \<Rightarrow> int \<Rightarrow> int" where
  "MakeDay year month date =
     (let ym = year + month div 12; mn = month mod 12
      in DayFromYear ym + monthStart mn (if DaysInYear ym = 366 then 1 else 0) + date - 1)"

definition MakeDate :: "int \<Rightarrow> int \<Rightarrow> int" where
  "MakeDate day time = day * msPerDay + time"

text \<open>The methods of \<open>Date\<close> that the plugin calls, on the time value of the object.\<close>

definition getFullYear :: "zone \<Rightarrow> int \<Rightarrow> int" where
  "getFullYear z t = YearFromTime (LocalTime z t)"

definition getMonth :: "zone \<Rightarrow> int \<Rightarrow> int" where
  "getMonth z t = MonthFromTime (LocalTime z t)"

definition getDate :: "zone \<Rightarrow> int \<Rightarrow> int" where
  "getDate z t = DateFromTime (LocalTime z t)"

definition getDay :: "zone \<Rightarrow> int \<Rightarrow> int" where
  "getDay z t = WeekDay (LocalTime z t)"

text \<open>
  \<open>new Date(year, month, date)\<close>: local midnight of that day. The constructor reads a year
  from 0 to 99 as a year of the twentieth century (\<open>MakeFullYear\<close>).
\<close>

definition MakeFullYear :: "int \<Rightarrow> int" where
  "MakeFullYear year = (if 0 \<le> year \<and> year \<le> 99 then 1900 + year else year)"

definition newDate :: "zone \<Rightarrow> int \<Rightarrow> int \<Rightarrow> int \<Rightarrow> int" where
  "newDate z year month date =
     UTC z (MakeDate (MakeDay (MakeFullYear year) month date) (MakeTime 0 0 0 0))"

text \<open>\<open>setHours(0, 0, 0, 0)\<close>, \<open>setMonth(month)\<close> and \<open>setFullYear(year)\<close>.\<close>

definition setHoursZero :: "zone \<Rightarrow> int \<Rightarrow> int" where
  "setHoursZero z t = UTC z (MakeDate (Day (LocalTime z t)) (MakeTime 0 0 0 0))"

definition setMonth :: "zone \<Rightarrow> int \<Rightarrow> int \<Rightarrow> int" where
  "setMonth z t month =
     (let l = LocalTime z t
      in UTC z (MakeDate (MakeDay (YearFromTime l) month (DateFromTime l)) (TimeWithinDay l)))"

definition setFullYear :: "zone \<Rightarrow> int \<Rightarrow> int \<Rightarrow> int" where
  "setFullYear z t year =
     (let l = LocalTime z t
      in UTC z (MakeDate (MakeDay year (MonthFromTime l) (DateFromTime l)) (TimeWithinDay l)))"

text \<open>The length of a month, for the statements about the calendar.\<close>

definition DaysInMonth :: "int \<Rightarrow> int \<Rightarrow> int" where
  "DaysInMonth y m =
     (if m = 1 then (if DaysInYear y = 366 then 29 else 28)
      else if m = 3 \<or> m = 5 \<or> m = 8 \<or> m = 10 then 30 else 31)"

text \<open>
  A zone keeps the day number \<open>d\<close> when the instant that it gives to local midnight of that
  day lies on that day in local time. A fixed offset keeps every day. A zone that moves
  its clocks forward over a midnight by less than a day keeps the day too, since the
  skipped midnight is read with the offset before the change; a zone that leaves out a
  whole day of the calendar does not keep that day.
\<close>

definition keepsDay :: "zone \<Rightarrow> int \<Rightarrow> bool" where
  "keepsDay z d = (Day (LocalTime z (UTC z (MakeDate d (MakeTime 0 0 0 0)))) = d)"

text \<open>
  Two zones for the examples. \<open>America/New_York\<close> in 2024: five hours behind UTC until
  10 March at 7:00 UTC, four hours behind until 3 November at 6:00 UTC, five hours
  behind after; a local time that the change skips or repeats is read with the earlier
  offset. \<open>Pacific/Kiritimati\<close> at the end of 1994: ten hours behind UTC until 31 December
  at 10:00 UTC, fourteen hours ahead after, so that 31 December 1994 is no day of its
  calendar.
\<close>

definition newYork2024 :: zone where
  "newYork2024 =
     (\<lambda>t isUTC.
        if isUTC
        then (if t < 1710054000000 then - 18000000
              else if t < 1730613600000 then - 14400000 else - 18000000)
        else (if t < 1710039600000 then - 18000000
              else if t < 1730599200000 then - 14400000 else - 18000000))"

definition kiritimati1994 :: zone where
  "kiritimati1994 =
     (\<lambda>t isUTC.
        if isUTC
        then (if t < 788868000000 then - 36000000 else 50400000)
        else (if t < 788918400000 then - 36000000 else 50400000))"

section \<open>Calendar view\<close>

text \<open>\<open>Number.prototype.toString\<close> on an integer: its decimal digits.\<close>

fun digits :: "nat \<Rightarrow> jsstring" where
  "digits n = (if n < 10 then [48 + n] else digits (n div 10) @ [48 + n mod 10])"

definition numberToString :: "int \<Rightarrow> jsstring" where
  "numberToString i = (if i < 0 then 45 # digits (nat (- i)) else digits (nat i))"

text \<open>
  An element of the day grid: its text, its CSS classes in the order they were added, the
  texts of its \<open>note-count\<close> spans, the notes its click handler hands to
  \<open>showNotesForDate\<close>, and the number of notes its title announces.
\<close>

record cell =
  cellText :: jsstring
  classes :: "string list"
  badges :: "jsstring list"
  onclick :: "TFile list option"
  titleCount :: "nat option"

definition emptyCell :: cell where
  "emptyCell = \<lparr>cellText = [], classes = [''calendar-day'', ''empty''], badges = [],
                 onclick = None, titleCount = None\<rparr>"

text \<open>
  \<open>notesByDate\<close> of \<open>renderMonthView\<close>: the notes modified in the month of the cursor, under
  the key \<open>noteDate.getDate().toString()\<close>, in the order of the listing.
\<close>

definition pushNote :: "'k \<Rightarrow> TFile \<Rightarrow> ('k \<rightharpoonup> TFile list) \<Rightarrow> ('k \<rightharpoonup> TFile list)" where
  "pushNote k note buckets =
     buckets(k \<mapsto> (case buckets k of None \<Rightarrow> [] | Some ns \<Rightarrow> ns) @ [note])"

definition addByDate ::
  "zone \<Rightarrow> int \<Rightarrow> int \<Rightarrow> (jsstring \<rightharpoonup> TFile list) \<Rightarrow> TFile \<Rightarrow> (jsstring \<rightharpoonup> TFile list)"
where
  "addByDate z year month buckets note =
     (let noteDate = mtime note
      in if getFullYear z noteDate = year \<and> getMonth z noteDate = month
         then pushNote (numberToString (getDate z noteDate)) note buckets
         else buckets)"

definition notesByDate :: "zone \<Rightarrow> int \<Rightarrow> int \<Rightarrow> TFile list \<Rightarrow> (jsstring \<rightharpoonup> TFile list)" where
  "notesByDate z year month markdownFiles =
     foldl (addByDate z year month) Map.empty markdownFiles"

text \<open>
  The body of the loop over the days of the month. \<open>now\<close> is the time value of \<open>new Date()\<close>.
\<close>

definition dayCell ::
  "zone \<Rightarrow> int \<Rightarrow> int \<Rightarrow> int \<Rightarrow> int option \<Rightarrow> (jsstring \<rightharpoonup> TFile list) \<Rightarrow> int \<Rightarrow> cell"
where
  "dayCell z now year month highlightDate byDate day =
     (let currentDate = newDate z year month day;
          today = setHoursZero z now;
          future = (if currentDate > today then [''future-date''] else []);
          highlighted =
            (case highlightDate of
               None \<Rightarrow> []
             | Some h \<Rightarrow>
                 (if getFullYear z currentDate = getFullYear z h \<and>
                     getMonth z currentDate = getMonth z h \<and>
                     getDate z currentDate = getDate z h
                  then [''highlighted-date''] else []));
          plain = \<lparr>cellText = numberToString day,
                   classes = [''calendar-day''] @ future @ highlighted,
                   badges = [], onclick = None, titleCount = None\<rparr>
      in case byDate (numberToString day) of
           None \<Rightarrow> plain
         | Some dayNotes \<Rightarrow>
             (if length dayNotes > 0
              then plain\<lparr>classes := classes plain @ [''has-notes''],
                         badges := [js '' ('' @ numberToString (int (length dayNotes)) @ js '')''],
                         onclick := Some dayNotes,
                         titleCount := Some (length dayNotes)\<rparr>
              else plain))"

record monthView =
  monthYearText :: "jsstring \<times> int"
  weekdayHeaders :: "jsstring list"
  dayCells :: "cell list"

text \<open>
  \<open>renderMonthView\<close>: the text of the month display (name of the month and year), the
  weekday headers and the children of the day grid. \<open>markdownFiles\<close> is what the host's
  \<open>getMarkdownFiles\<close> returns.
\<close>

definition renderMonthView ::
  "zone \<Rightarrow> int \<Rightarrow> NoteDatesSettings \<Rightarrow> TFile list \<Rightarrow> int \<Rightarrow> int option \<Rightarrow> monthView"
where
  "renderMonthView z now prefs markdownFiles date highlightDate =
     (let year = getFullYear z date;
          month = getMonth z date;
          monthNames = getMonthNames (language prefs);
          firstDayOfWeek = calendarFirstDayOfWeek prefs;
          weekdayNames = getWeekdayNames (language prefs);
          weekdays =
            (if firstDayOfWeek = 1
             then [weekdayNames ! 1, weekdayNames ! 2, weekdayNames ! 3, weekdayNames ! 4,
                   weekdayNames ! 5, weekdayNames ! 6, weekdayNames ! 0]
             else [weekdayNames ! 0, weekdayNames ! 1, weekdayNames ! 2, weekdayNames ! 3,
                   weekdayNames ! 4, weekdayNames ! 5, weekdayNames ! 6]);
          firstDay = getDay z (newDate z year month 1);
          firstDayOfMonth =
            (if firstDayOfWeek = 1 then (if firstDay = 0 then 6 else firstDay - 1) else firstDay);
          daysInMonth = getDate z (newDate z year (month + 1) 0);
          byDate = notesByDate z year month markdownFiles
      in \<lparr>monthYearText = (monthNames ! nat month, year),
          weekdayHeaders = weekdays,
          dayCells = replicate (nat firstDayOfMonth) emptyCell @
                     map (dayCell z now year month highlightDate byDate) [1..daysInMonth]\<rparr>)"

text \<open>
  \<open>notesByMonth\<close> of \<open>renderYearView\<close>: a bucket for each month index from 0 to 11, filled
  with the notes modified in the year of the cursor. Pushing onto a bucket that does
  not exist would throw; the result is then \<open>None\<close>.
\<close>

definition emptyMonths :: "int \<rightharpoonup> TFile list" where
  "emptyMonths = (\<lambda>i. if 0 \<le> i \<and> i < 12 then Some [] else None)"

definition addByMonth ::
  "zone \<Rightarrow> int \<Rightarrow> (int \<rightharpoonup> TFile list) option \<Rightarrow> TFile \<Rightarrow> (int \<rightharpoonup> TFile list) option"
where
  "addByMonth z year acc note =
     (case acc of
        None \<Rightarrow> None
      | Some buckets \<Rightarrow>
          (let noteDate = mtime note
           in if getFullYear z noteDate = year
              then (case buckets (getMonth z noteDate) of
                      None \<Rightarrow> None
                    | Some ns \<Rightarrow> Some (buckets(getMonth z noteDate \<mapsto> ns @ [note])))
              else Some buckets))"

definition notesByMonth :: "zone \<Rightarrow> int \<Rightarrow> TFile list \<Rightarrow> (int \<rightharpoonup> TFile list) option" where
  "notesByMonth z year markdownFiles =
     foldl (addByMonth z year) (Some emptyMonths) markdownFiles"

text \<open>
  An item of the month navigation of the year view (classes, label, count shown) and a
  month section of the timeline (its title: name of the month and number of notes, none
  for a month without notes; its notes in display order, each with the classes of its
  timeline item).
\<close>

record monthItem =
  itemClasses :: "string list"
  monthLabel :: jsstring
  countText :: jsstring

record monthSection =
  sectionId :: int
  sectionTitle :: "jsstring \<times> nat option"
  timelineItems :: "(TFile \<times> string list) list"

record yearView =
  yearText :: jsstring
  monthItems :: "monthItem list"
  monthSections :: "monthSection list"
  noNotesMessage :: bool

definition monthItemOf :: "int \<Rightarrow> language \<Rightarrow> jsstring list \<Rightarrow> int \<Rightarrow> TFile list \<Rightarrow> monthItem" where
  "monthItemOf selectedMonth lang monthNames monthIndex monthNotes =
     \<lparr>itemClasses = [''year-month-timeline-item''] @
        (if monthIndex = selectedMonth then [''active''] else []) @
        (if length monthNotes > 0 then [''has-notes''] else []),
      monthLabel = (if lang = En then take 3 (monthNames ! nat monthIndex)
                    else numberToString (monthIndex + 1) @ [26376]),
      countText = numberToString (int (length monthNotes))\<rparr>"

definition monthSectionOf ::
  "zone \<Rightarrow> int option \<Rightarrow> jsstring list \<Rightarrow> int \<Rightarrow> TFile list \<Rightarrow> monthSection"
where
  "monthSectionOf z highlightDate monthNames monthIndex monthNotes =
     \<lparr>sectionId = monthIndex,
      sectionTitle = (monthNames ! nat monthIndex,
                      if length monthNotes > 0 then Some (length monthNotes) else None),
      timelineItems =
        map (\<lambda>note.
               (note,
                [''timeline-item''] @
                (case highlightDate of
                   None \<Rightarrow> []
                 | Some h \<Rightarrow>
                     (if getFullYear z (mtime note) = getFullYear z h \<and>
                         getMonth z (mtime note) = getMonth z h \<and>
                         getDate z (mtime note) = getDate z h
                      then [''highlighted-note''] else []))))
          monthNotes\<rparr>"

text \<open>
  Reading the buckets of the given month indices; reading the length of a bucket that
  does not exist would throw, which gives \<open>None\<close>.
\<close>

fun monthBuckets :: "(int \<rightharpoonup> TFile list) \<Rightarrow> int list \<Rightarrow> TFile list list option" where
  "monthBuckets buckets [] = Some []"
| "monthBuckets buckets (monthIndex # rest) =
     (case buckets monthIndex of
        None \<Rightarrow> None
      | Some monthNotes \<Rightarrow>
          (case monthBuckets buckets rest of
             None \<Rightarrow> None
           | Some others \<Rightarrow> Some (monthNotes # others)))"

text \<open>
  \<open>renderYearView\<close>. Every bucket is sorted by the sort order of the settings before it is
  shown. \<open>Inl\<close> stands for an exception that leaves the function.
\<close>

definition renderYearView ::
  "zone \<Rightarrow> NoteDatesSettings \<Rightarrow> TFile list \<Rightarrow> int \<Rightarrow> int option \<Rightarrow> thrown + yearView"
where
  "renderYearView z prefs markdownFiles date highlightDate =
     (let year = getFullYear z date;
          monthNames = getMonthNames (language prefs);
          selectedMonth = getMonth z date
      in case notesByMonth z year markdownFiles of
           None \<Rightarrow> Inl Thrown
         | Some buckets \<Rightarrow>
             (case monthBuckets buckets [0..11] of
                None \<Rightarrow> Inl Thrown
              | Some byMonth \<Rightarrow>
                  (let sorted = zip [0..11] (map (sortNotes (sortOrder prefs)) byMonth)
                   in Inr \<lparr>yearText = numberToString year,
                           monthItems =
                             map (\<lambda>(monthIndex, monthNotes).
                                    monthItemOf selectedMonth (language prefs) monthNames
                                      monthIndex monthNotes)
                               sorted,
                           monthSections =
                             map (\<lambda>(monthIndex, monthNotes).
                                    monthSectionOf z highlightDate monthNames monthIndex monthNotes)
                               sorted,
                           noNotesMessage =
                             (sum_list (map (\<lambda>(monthIndex, monthNotes). length monthNotes) sorted) = 0)\<rparr>)))"

text \<open>What \<open>renderCalendar\<close> puts into the panel, by the view type of the settings.\<close>

datatype rendering = MonthRendering monthView | YearRendering "thrown + yearView"

definition renderCalendar ::
  "zone \<Rightarrow> int \<Rightarrow> NoteDatesSettings \<Rightarrow> TFile list \<Rightarrow> int \<Rightarrow> int option \<Rightarrow> rendering"
where
  "renderCalendar z now prefs markdownFiles date highlightDate =
     (case calendarViewType prefs of
        Month \<Rightarrow> MonthRendering (renderMonthView z now prefs markdownFiles date highlightDate)
      | Year \<Rightarrow> YearRendering (renderYearView z prefs markdownFiles date highlightDate))"

text \<open>
  The calendar panel: the cursor \<open>currentDate\<close>, the plugin it belongs to and what it shows.
\<close>

record calendarView =
  currentDate :: int
  owner :: plugin
  shown :: rendering

text \<open>
  \<open>navigateCalendar\<close>: \<open>setMonth\<close> or \<open>setFullYear\<close> on the cursor, by the view type, then a
  render of the new cursor.
\<close>

definition navigateCalendar ::
  "zone \<Rightarrow> int \<Rightarrow> TFile list \<Rightarrow> int \<Rightarrow> calendarView \<Rightarrow> calendarView"
where
  "navigateCalendar z now markdownFiles direction view =
     (let cursor = currentDate view;
          viewType = calendarViewType (settings (owner view));
          moved = (case viewType of
                     Month \<Rightarrow> setMonth z cursor (getMonth z cursor + direction)
                   | Year \<Rightarrow> setFullYear z cursor (getFullYear z cursor + direction))
      in view\<lparr>currentDate := moved,
              shown := renderCalendar z now (settings (owner view)) markdownFiles moved None\<rparr>)"

text \<open>
  The click handler of the view switcher: the other view type is stored and saved, and
  the calendar is rendered for the cursor as it is.
\<close>

definition switchView :: "zone \<Rightarrow> int \<Rightarrow> TFile list \<Rightarrow> calendarView \<Rightarrow> calendarView" where
  "switchView z now markdownFiles view =
     (let currentType = calendarViewType (settings (owner view));
          nextType = (case currentType of Year \<Rightarrow> Month | Month \<Rightarrow> Year);
          saved = saveSettings ((owner view)\<lparr>settings := (settings (owner view))\<lparr>calendarViewType := nextType\<rparr>\<rparr>)
      in view\<lparr>owner := saved,
              shown := renderCalendar z now (settings saved) markdownFiles (currentDate view) None\<rparr>)"

text \<open>A note modified in the given month of the given year, in local time.\<close>

definition inMonth :: "zone \<Rightarrow> int \<Rightarrow> int \<Rightarrow> TFile \<Rightarrow> bool" where
  "inMonth z year month note =
     (getFullYear z (mtime note) = year \<and> getMonth z (mtime note) = month)"

text \<open>
  Values for the examples, in UTC: notes modified on 1 March 2024, twice on 15 March 2024
  and on 3 February 2024; a cursor on 9 March 2024 and one on 31 January 2024 at noon.
\<close>

definition demoNotes :: "TFile list" where
  "demoNotes =
     [demoFile ''one.md'' ''one'' ''md'' 1709251200000,
      demoFile ''two.md'' ''two'' ''md'' 1710460800000,
      demoFile ''three.md'' ''three'' ''md'' 1710500000000,
      demoFile ''four.md'' ''four'' ''md'' 1706918400000]"

definition demoCursor :: int where
  "demoCursor = 1709985600000"

definition demoJanuary31 :: int where
  "demoJanuary31 = 1706702400000"

definition mondayFirst :: NoteDatesSettings where
  "mondayFirst = DEFAULT_SETTINGS\<lparr>calendarFirstDayOfWeek := 1, calendarViewType := Month\<rparr>"

definition demoView :: calendarView where
  "demoView =
     \<lparr>currentDate = demoJanuary31,
      owner = demoPlugin\<lparr>settings := mondayFirst\<rparr>,
      shown = renderCalendar (fixedOffset 0) demoJanuary31 mondayFirst demoNotes demoJanuary31 None\<rparr>"




text \<open>
  Notes modified on 10 and 20 December 1994 and a cursor on 15 December 1994, each at
  12:00 UTC.
\<close>

definition december1994Notes :: "TFile list" where
  "december1994Notes =
     [demoFile ''one.md'' ''one'' ''md'' 787060800000,
      demoFile ''two.md'' ''two'' ''md'' 787924800000]"

definition december1994Cursor :: int where
  "december1994Cursor = 787492800000"

section \<open>Folder statistics: proofs\<close>

lemma forEachChild_mono:
  assumes "\<And>q s. r q = Some s \<Longrightarrow> r' q = Some s"
  shows "forEachChild r cs st = Some res \<Longrightarrow> forEachChild r' cs st = Some res"
proof (induction cs arbitrary: st)
  case Nil
  then show ?case by simp
next
  case (Cons c cs)
  show ?case
  proof (cases c)
    case (File f)
    then show ?thesis using Cons by simp
  next
    case (Folder cp cn ccs)
    from Cons.prems Folder obtain sub where sub: "r cp = Some sub"
      by (cases "r cp") auto
    then have sub': "r' cp = Some sub" by (rule assms)
    from Cons.prems Folder sub sub' Cons.IH show ?thesis by simp
  qed
qed

lemma countFilesInFolder_Suc:
  "countFilesInFolder fuel host p = Some st \<Longrightarrow> countFilesInFolder (Suc fuel) host p = Some st"
proof (induction fuel arbitrary: p st)
  case 0
  then show ?case by simp
next
  case (Suc fuel)
  have step: "\<And>q s. countFilesInFolder fuel host q = Some s \<Longrightarrow> countFilesInFolder (Suc fuel) host q = Some s"
    using Suc.IH by blast
  show ?case
  proof (cases "host p")
    case (Inl a)
    then show ?thesis using Suc.prems by simp
  next
    case (Inr b)
    show ?thesis
    proof (cases b)
      case None
      then show ?thesis using Inr Suc.prems by simp
    next
      case (Some a)
      show ?thesis
      proof (cases a)
        case (File f)
        then show ?thesis using Inr Some Suc.prems by simp
      next
        case (Folder fp fn cs)
        have "forEachChild (countFilesInFolder fuel host) cs zeroed = Some st"
          using Inr Some Folder Suc.prems by simp
        then have "forEachChild (countFilesInFolder (Suc fuel) host) cs zeroed = Some st"
          by (rule forEachChild_mono[rotated]) (rule step)
        then show ?thesis using Inr Some Folder by simp
      qed
    qed
  qed
qed

lemma countFilesInFolder_mono:
  "countFilesInFolder fuel host p = Some st \<Longrightarrow> fuel \<le> fuel' \<Longrightarrow> countFilesInFolder fuel' host p = Some st"
proof -
  assume a: "countFilesInFolder fuel host p = Some st" and le: "fuel \<le> fuel'"
  have "countFilesInFolder (fuel + k) host p = Some st" for k
    by (induction k) (use a in \<open>simp_all add: countFilesInFolder_Suc del: countFilesInFolder.simps\<close>)
  from this[of "fuel' - fuel"] le show ?thesis by simp
qed


lemma forEachChild_results:
  "forEachChild r cs st = Some res \<Longrightarrow>
   \<exists>subs. map r (map folder_path (filter isFolder cs)) = map Some subs"
proof (induction cs arbitrary: st)
  case Nil
  then show ?case by simp
next
  case (Cons c cs)
  show ?case
  proof (cases c)
    case (File f)
    then show ?thesis using Cons by simp
  next
    case (Folder cp cn ccs)
    from Cons.prems Folder obtain sub where sub: "r cp = Some sub"
      by (cases "r cp") auto
    from Cons.prems Folder sub Cons.IH obtain subs
      where "map r (map folder_path (filter isFolder cs)) = map Some subs"
      by fastforce
    then have "map r (map folder_path (filter isFolder (c # cs))) = map Some (sub # subs)"
      using Folder sub by simp
    then show ?thesis by blast
  qed
qed

lemma forEachChild_sums:
  "map r (map folder_path (filter isFolder cs)) = map Some subs \<Longrightarrow>
   forEachChild r cs st =
     Some \<lparr>totalFiles = totalFiles st + int (length (filter isFile cs)) + sum_list (map totalFiles subs),
           totalNotes = totalNotes st + int (length (filter isNote cs)) + sum_list (map totalNotes subs),
           subfolderStats = subfolderStats st @ map2 subfolderEntry (filter isFolder cs) subs\<rparr>"
proof (induction cs arbitrary: st subs)
  case Nil
  then show ?case by simp
next
  case (Cons c cs)
  show ?case
  proof (cases c)
    case (File f)
    then show ?thesis using Cons.prems Cons.IH[of subs] by simp
  next
    case (Folder cp cn ccs)
    from Cons.prems Folder obtain sub rest where subs: "subs = sub # rest"
      and sub: "r cp = Some sub"
      and rest: "map r (map folder_path (filter isFolder cs)) = map Some rest"
      by (cases subs) auto
    show ?thesis using Folder sub subs Cons.IH[OF rest]
      by (simp add: subfolderEntry_def)
  qed
qed

lemma forEachChild_returns:
  "(\<And>c. c \<in> set cs \<Longrightarrow> isFolder c \<Longrightarrow> \<exists>s. r (folder_path c) = Some s) \<Longrightarrow>
   \<exists>res. forEachChild r cs st = Some res"
proof (induction cs arbitrary: st)
  case Nil
  then show ?case by simp
next
  case (Cons c cs)
  show ?case
  proof (cases c)
    case (File f)
    then show ?thesis using Cons by simp
  next
    case (Folder cp cn ccs)
    then obtain s where "r cp = Some s" using Cons.prems[of c] by auto
    then show ?thesis using Folder Cons by simp
  qed
qed

lemma depth_child: "c \<in> set cs \<Longrightarrow> depth c \<le> foldr (\<lambda>c d. max (depth c) d) cs 0"
  by (induction cs) auto

lemma countFilesInFolder_returns:
  "host p = Inr (Some t) \<Longrightarrow> treeLike host t \<Longrightarrow> depth t \<le> fuel \<Longrightarrow> 0 < fuel \<Longrightarrow>
   \<exists>st. countFilesInFolder fuel host p = Some st"
proof (induction fuel arbitrary: p t)
  case 0
  then show ?case by simp
next
  case (Suc fuel)
  show ?case
  proof (cases t)
    case (File f)
    then show ?thesis using Suc.prems by simp
  next
    case (Folder fp fn cs)
    have "\<exists>s. countFilesInFolder fuel host (folder_path c) = Some s"
      if c: "c \<in> set cs" and fc: "isFolder c" for c
    proof -
      from fc obtain cp cn ccs where cf: "c = Folder cp cn ccs"
        by (cases c) auto
      have tl: "treeLike host c" and hc: "host cp = Inr (Some c)"
        using Suc.prems(2) Folder c cf by auto
      have "depth c \<le> fuel" using depth_child[OF c] Suc.prems(3) Folder by simp
      moreover have "0 < depth c" using cf by simp
      ultimately show ?thesis using Suc.IH[OF hc tl] cf by auto
    qed
    then have "\<exists>res. forEachChild (countFilesInFolder fuel host) cs zeroed = Some res"
      by (rule forEachChild_returns)
    then show ?thesis using Folder Suc.prems(1) by simp
  qed
qed

lemma forEachChild_wellCounted:
  assumes "\<And>q s. r q = Some s \<Longrightarrow> wellCounted s"
  shows "wellCounted st \<Longrightarrow> forEachChild r cs st = Some res \<Longrightarrow> wellCounted res"
proof (induction cs arbitrary: st)
  case Nil
  then show ?case by simp
next
  case (Cons c cs)
  show ?case
  proof (cases c)
    case (File f)
    have "wellCounted (st\<lparr>totalFiles := totalFiles st + 1,
              totalNotes := (if extension f = js ''md'' then totalNotes st + 1
                             else totalNotes st)\<rparr>)"
      using Cons.prems(1) by (simp add: wellCounted_def)
    then show ?thesis using Cons.IH Cons.prems(2) File by simp
  next
    case (Folder cp cn ccs)
    from Cons.prems Folder obtain sub where sub: "r cp = Some sub"
      by (cases "r cp") auto
    then have ws: "wellCounted sub" by (rule assms)
    have "wellCounted (st\<lparr>totalFiles := totalFiles st + totalFiles sub,
                   totalNotes := totalNotes st + totalNotes sub,
                   subfolderStats := subfolderStats st @
                     [\<lparr>name = cn, subPath = cp,
                       files = totalFiles sub, notes = totalNotes sub\<rparr>]\<rparr>)"
      using Cons.prems(1) ws by (simp add: wellCounted_def)
    then show ?thesis using Cons.IH Cons.prems(2) Folder sub by simp
  qed
qed

lemma countFilesInFolder_wellCounted:
  "countFilesInFolder fuel host p = Some st \<Longrightarrow> wellCounted st"
proof (induction fuel arbitrary: p st)
  case 0
  then show ?case by simp
next
  case (Suc fuel)
  have z: "wellCounted zeroed" by (simp add: wellCounted_def zeroed_def)
  show ?case
  proof (cases "host p")
    case (Inl a)
    then show ?thesis using Suc.prems z by simp
  next
    case (Inr b)
    show ?thesis
    proof (cases b)
      case None
      then show ?thesis using Inr Suc.prems z by simp
    next
      case (Some a)
      show ?thesis
      proof (cases a)
        case (File f)
        then show ?thesis using Inr Some Suc.prems z by simp
      next
        case (Folder fp fn cs)
        have "forEachChild (countFilesInFolder fuel host) cs zeroed = Some st"
          using Inr Some Folder Suc.prems by simp
        then show ?thesis
          using forEachChild_wellCounted[of "countFilesInFolder fuel host" zeroed cs st] Suc.IH z
          by blast
      qed
    qed
  qed
qed

lemma countFilesInFolder_additive:
  assumes res: "countFilesInFolder fuel host p = Some st"
    and folder: "host p = Inr (Some (Folder fp fn cs))"
  shows "\<exists>subs. map (countFilesInFolder fuel host) (map folder_path (filter isFolder cs)) = map Some subs \<and>
     totalFiles st = int (length (filter isFile cs)) + sum_list (map totalFiles subs) \<and>
     totalNotes st = int (length (filter isNote cs)) + sum_list (map totalNotes subs) \<and>
     subfolderStats st = map2 subfolderEntry (filter isFolder cs) subs"
proof (cases fuel)
  case 0
  then show ?thesis using res by simp
next
  case (Suc n)
  have run: "forEachChild (countFilesInFolder n host) cs zeroed = Some st"
    using res folder Suc by simp
  then obtain subs where subs:
    "map (countFilesInFolder n host) (map folder_path (filter isFolder cs)) = map Some subs"
    using forEachChild_results by blast
  have "st = \<lparr>totalFiles = totalFiles zeroed + int (length (filter isFile cs)) + sum_list (map totalFiles subs),
           totalNotes = totalNotes zeroed + int (length (filter isNote cs)) + sum_list (map totalNotes subs),
           subfolderStats = subfolderStats zeroed @ map2 subfolderEntry (filter isFolder cs) subs\<rparr>"
    using forEachChild_sums[OF subs, of zeroed] run by simp
  then have sums: "totalFiles st = int (length (filter isFile cs)) + sum_list (map totalFiles subs)"
    "totalNotes st = int (length (filter isNote cs)) + sum_list (map totalNotes subs)"
    "subfolderStats st = map2 subfolderEntry (filter isFolder cs) subs"
    by (simp_all add: zeroed_def)
  have "map (countFilesInFolder fuel host) (map folder_path (filter isFolder cs)) = map Some subs"
  proof (rule nth_equalityI)
    show "length (map (countFilesInFolder fuel host) (map folder_path (filter isFolder cs))) = length (map Some subs)"
      using arg_cong[OF subs, of length] by simp
  next
    fix i assume i: "i < length (map (countFilesInFolder fuel host) (map folder_path (filter isFolder cs)))"
    let ?q = "map folder_path (filter isFolder cs) ! i"
    have len: "length subs = length (filter isFolder cs)"
      using arg_cong[OF subs, of length] by simp
    have "map (countFilesInFolder n host) (map folder_path (filter isFolder cs)) ! i = map Some subs ! i"
      using subs by simp
    then have "countFilesInFolder n host ?q = Some (subs ! i)"
      using i len by simp
    then have "countFilesInFolder fuel host ?q = Some (subs ! i)"
      unfolding Suc by (rule countFilesInFolder_Suc)
    then show "map (countFilesInFolder fuel host) (map folder_path (filter isFolder cs)) ! i = map Some subs ! i"
      using i len by simp
  qed
  with sums show ?thesis by blast
qed

text \<open>
  C9: a lookup that throws, returns nothing or returns a file makes \<open>countFilesInFolder\<close>
  return the zeroed result; the call returns (one level of recursion suffices) and nothing
  is propagated.
\<close>

theorem countFilesInFolder_fail_soft:
  assumes "host p = Inl err \<or> host p = Inr None \<or> host p = Inr (Some (File f))"
  shows "countFilesInFolder (Suc fuel) host p =
           Some \<lparr>totalFiles = 0, totalNotes = 0, subfolderStats = []\<rparr>"
  using assms by (auto simp: zeroed_def)

theorem countFilesInFolder_fail_soft_witness:
  "countFilesInFolder (Suc 0) demoVault (js ''locked'') =
     Some \<lparr>totalFiles = 0, totalNotes = 0, subfolderStats = []\<rparr> \<and>
   countFilesInFolder (Suc 0) demoVault (js ''missing'') =
     Some \<lparr>totalFiles = 0, totalNotes = 0, subfolderStats = []\<rparr> \<and>
   countFilesInFolder (Suc 0) demoVault (js ''a/x.md'') =
     Some \<lparr>totalFiles = 0, totalNotes = 0, subfolderStats = []\<rparr>"
proof -
  have 1: "demoVault (js ''locked'') = Inl Thrown"
    by (simp add: demoVault_def js_def)
  have 2: "demoVault (js ''missing'') = Inr None"
    by (simp add: demoVault_def js_def)
  have 3: "demoVault (js ''a/x.md'') = Inr (Some (File (demoFile ''a/x.md'' ''x'' ''md'' 1000)))"
    by (simp add: demoVault_def js_def)
  show ?thesis
    using countFilesInFolder_fail_soft[of demoVault "js ''locked''" Thrown _ 0, OF disjI1, OF 1]
      countFilesInFolder_fail_soft[of demoVault "js ''missing''" _ _ 0, OF disjI2, OF disjI1, OF 2]
      countFilesInFolder_fail_soft[of demoVault "js ''a/x.md''" _ _ 0, OF disjI2, OF disjI2, OF 3]
    by simp
qed

text \<open>
  C10: every result of \<open>countFilesInFolder\<close>, for every host and path, has
  \<open>0 \<le> totalNotes \<le> totalFiles\<close>, and every entry of \<open>subfolderStats\<close> has
  \<open>0 \<le> notes \<le> files\<close>.
\<close>

theorem countFilesInFolder_notes_le_files:
  assumes "countFilesInFolder fuel host p = Some st"
  shows "0 \<le> totalNotes st \<and> totalNotes st \<le> totalFiles st \<and>
         (\<forall>e \<in> set (subfolderStats st). 0 \<le> notes e \<and> notes e \<le> files e)"
  using countFilesInFolder_wellCounted[OF assms] by (simp add: wellCounted_def list_all_iff)

lemma demoVault_count:
  "countFilesInFolder 2 demoVault (js ''a'') =
     Some \<lparr>totalFiles = 3, totalNotes = 2,
           subfolderStats = [\<lparr>name = js ''b'', subPath = js ''a/b'', files = 1, notes = 1\<rparr>]\<rparr>"
  by (simp add: numeral_2_eq_2 demoVault_def demoRoot_def demoSub_def demoFile_def zeroed_def js_def)

theorem countFilesInFolder_notes_le_files_witness:
  "countFilesInFolder 2 demoVault (js ''a'') =
     Some \<lparr>totalFiles = 3, totalNotes = 2,
           subfolderStats = [\<lparr>name = js ''b'', subPath = js ''a/b'', files = 1, notes = 1\<rparr>]\<rparr> \<and>
   (0::int) \<le> 2 \<and> (2::int) \<le> 3 \<and> (0::int) \<le> 1 \<and> (1::int) \<le> 1"
  using countFilesInFolder_notes_le_files[OF demoVault_count] demoVault_count by simp

text \<open>
  C1: folder statistics are additive. When the path resolves to a folder of a tree-shaped
  hierarchy, \<open>countFilesInFolder\<close> returns, so does the call for every direct subfolder, and
  \<open>totalFiles\<close> is the number of direct files plus the subfolders' \<open>totalFiles\<close>;
  \<open>totalNotes\<close> likewise with the direct files of extension \<open>md\<close>. The tree is of any depth.
\<close>

theorem countFilesInFolder_is_additive:
  assumes "host p = Inr (Some (Folder fp fn cs))"
    and "treeLike host (Folder fp fn cs)"
    and "depth (Folder fp fn cs) \<le> fuel"
  shows "\<exists>st subs.
     countFilesInFolder fuel host p = Some st \<and>
     map (countFilesInFolder fuel host) (map folder_path (filter isFolder cs)) = map Some subs \<and>
     totalFiles st = int (length (filter isFile cs)) + sum_list (map totalFiles subs) \<and>
     totalNotes st = int (length (filter isNote cs)) + sum_list (map totalNotes subs)"
proof -
  have "0 < fuel" using assms(3) by simp
  with countFilesInFolder_returns[OF assms(1,2,3)]
  obtain st where st: "countFilesInFolder fuel host p = Some st" by blast
  from countFilesInFolder_additive[OF st assms(1)] st show ?thesis by blast
qed

theorem countFilesInFolder_is_additive_witness:
  "\<exists>st subs.
     countFilesInFolder 2 demoVault (js ''a'') = Some st \<and>
     map (countFilesInFolder 2 demoVault) [js ''a/b''] = map Some subs \<and>
     totalFiles st = 2 + sum_list (map totalFiles subs) \<and>
     totalNotes st = 1 + sum_list (map totalNotes subs)"
proof -
  have 1: "demoVault (js ''a'') = Inr (Some (Folder (js ''a'') (js ''a'')
     [File (demoFile ''a/x.md'' ''x'' ''md'' 1000), demoSub,
      File (demoFile ''a/y.txt'' ''y'' ''txt'' 2000)]))"
    by (simp add: demoVault_def demoRoot_def js_def)
  have 2: "treeLike demoVault (Folder (js ''a'') (js ''a'')
     [File (demoFile ''a/x.md'' ''x'' ''md'' 1000), demoSub,
      File (demoFile ''a/y.txt'' ''y'' ''txt'' 2000)])"
    by (simp add: demoVault_def demoSub_def js_def)
  have 3: "depth (Folder (js ''a'') (js ''a'')
     [File (demoFile ''a/x.md'' ''x'' ''md'' 1000), demoSub,
      File (demoFile ''a/y.txt'' ''y'' ''txt'' 2000)]) \<le> 2"
    by (simp add: demoSub_def)
  show ?thesis
    using countFilesInFolder_is_additive[OF 1 2 3]
    by (simp add: demoSub_def demoFile_def js_def)
qed

section \<open>Localization: proofs\<close>

lemma texts_nonempty: "list_all (\<lambda>(k, e). en e \<noteq> [] \<and> zh e \<noteq> []) texts"
  by (simp add: texts_def js_def)

lemma texts_distinct: "distinct (map fst texts)"
  by (simp add: texts_def js_def)

lemma pick_nonempty: "map_of texts key = Some entry \<Longrightarrow> pick lang entry \<noteq> []"
proof -
  assume "map_of texts key = Some entry"
  then have "(key, entry) \<in> set texts" by (rule map_of_SomeD)
  with texts_nonempty have "en entry \<noteq> [] \<and> zh entry \<noteq> []"
    by (auto simp: list_all_iff)
  then show ?thesis by (cases lang) simp_all
qed

text \<open>
  C8: \<open>getLocalizedText\<close> is a total function of the key and the language. For a key of the
  table it returns the entry's text for the language, which is not empty, in both
  languages; for any other key it returns the key itself.
\<close>

theorem getLocalizedText_total:
  "(\<forall>entry. map_of texts key = Some entry \<longrightarrow>
      getLocalizedText key lang = pick lang entry \<and> pick lang entry \<noteq> []) \<and>
   (map_of texts key = None \<longrightarrow> getLocalizedText key lang = key)"
  by (auto simp: getLocalizedText_def dest: pick_nonempty)

lemma january: "map_of texts (js ''january'') = Some \<lparr>en = js ''January'', zh = [19968, 26376]\<rparr>"
  by (simp add: texts_def js_def)

lemma nokey: "map_of texts (js ''noSuchKey'') = None"
  by (simp add: texts_def js_def)

theorem getLocalizedText_total_witness:
  "getLocalizedText (js ''january'') Zh = [19968, 26376] \<and>
   getLocalizedText (js ''january'') En = js ''January'' \<and>
   getLocalizedText (js ''noSuchKey'') En = js ''noSuchKey''"
  using getLocalizedText_total[of "js ''january''" Zh] getLocalizedText_total[of "js ''january''" En]
    getLocalizedText_total[of "js ''noSuchKey''" En] january nokey
  by simp

section \<open>Settings: proofs\<close>

text \<open>
  C7, as the code has it: both variants of \<open>saveSettings\<close> persist the settings record and
  leave it unchanged. The variant of \<open>src/main.ts\<close> refreshes the file display on every
  save. The variant of \<open>src/unnamed/part_000\<close> refreshes exactly when the language differs
  from the one recorded at the last load or save and the caller did not pass
  \<open>skipFileDisplayUpdate\<close>; it then records the language.
\<close>

theorem saveSettings_refresh:
  "savedData (saveSettings p) = Some (settings p) \<and>
   settings (saveSettings p) = settings p \<and>
   displayUpdates (saveSettings p) = displayUpdates p + 1 \<and>
   savedData (saveSettings_tracked skip p) = Some (settings p) \<and>
   settings (saveSettings_tracked skip p) = settings p \<and>
   lastLanguage (saveSettings_tracked skip p) = language (settings p) \<and>
   displayUpdates (saveSettings_tracked skip p) =
     (if \<not> skip \<and> lastLanguage p \<noteq> language (settings p) then displayUpdates p + 1
      else displayUpdates p)"
  by (simp add: saveSettings_def saveSettings_tracked_def saveData_def updateAllFilesDisplay_def Let_def)

theorem saveSettings_refresh_witness:
  "displayUpdates (saveSettings_tracked False (demoPlugin\<lparr>settings := (settings demoPlugin)\<lparr>sortOrder := Asc\<rparr>\<rparr>)) = 0 \<and>
   displayUpdates (saveSettings_tracked False (demoPlugin\<lparr>settings := (settings demoPlugin)\<lparr>language := En\<rparr>\<rparr>)) = 1 \<and>
   displayUpdates (saveSettings_tracked True (demoPlugin\<lparr>settings := (settings demoPlugin)\<lparr>language := En\<rparr>\<rparr>)) = 0 \<and>
   displayUpdates (saveSettings (demoPlugin\<lparr>settings := (settings demoPlugin)\<lparr>language := En\<rparr>\<rparr>)) = 1"
  using saveSettings_refresh[of "demoPlugin\<lparr>settings := (settings demoPlugin)\<lparr>sortOrder := Asc\<rparr>\<rparr>" False]
    saveSettings_refresh[of "demoPlugin\<lparr>settings := (settings demoPlugin)\<lparr>language := En\<rparr>\<rparr>" False]
    saveSettings_refresh[of "demoPlugin\<lparr>settings := (settings demoPlugin)\<lparr>language := En\<rparr>\<rparr>" True]
  by (simp add: demoPlugin_def DEFAULT_SETTINGS_def)

text \<open>
  The sentence of the specification fails on \<open>src/main.ts\<close>: after the sort order alone was changed (the language is
  the one last saved), \<open>saveSettings\<close> still refreshes the file display.
\<close>

theorem saveSettings_counterexample:
  "language (settings (demoPlugin\<lparr>settings := (settings demoPlugin)\<lparr>sortOrder := Asc\<rparr>\<rparr>)) = lastLanguage demoPlugin \<and>
   map_option language (savedData demoPlugin) = Some (language (settings (demoPlugin\<lparr>settings := (settings demoPlugin)\<lparr>sortOrder := Asc\<rparr>\<rparr>))) \<and>
   displayUpdates (saveSettings (demoPlugin\<lparr>settings := (settings demoPlugin)\<lparr>sortOrder := Asc\<rparr>\<rparr>)) \<noteq> displayUpdates demoPlugin"
  by (simp add: saveSettings_def saveData_def updateAllFilesDisplay_def demoPlugin_def DEFAULT_SETTINGS_def)

section \<open>Sorting notes: proofs\<close>

lemma insertSorted_ascending: "insertSorted ascending x ys = insort_key mtime x ys"
  by (induction ys) (simp_all add: ascending_def)

lemma insertSorted_descending: "insertSorted descending x ys = insort_key (\<lambda>n. - mtime n) x ys"
  by (induction ys) (simp_all add: descending_def)

lemma arraySort_ascending: "arraySort ascending xs = sort_key mtime xs"
  by (induction xs) (simp_all add: arraySort_def insertSorted_ascending)

lemma arraySort_descending: "arraySort descending xs = sort_key (\<lambda>n. - mtime n) xs"
  by (induction xs) (simp_all add: arraySort_def insertSorted_descending)

lemma sorted_rev_neg: "sorted (map (\<lambda>n. - f n) xs) \<Longrightarrow> sorted (map f (rev xs))" for f :: "'a \<Rightarrow> int"
  by (simp add: sorted_wrt_map sorted_wrt_rev rev_map[symmetric])

lemma descending_then_ascending_times:
  "map mtime (arraySort ascending (arraySort descending ns)) = rev (map mtime (arraySort descending ns))"
proof -
  let ?L = "sort_key (\<lambda>n. - mtime n) ns"
  have s: "sorted (map mtime (rev ?L))" by (rule sorted_rev_neg) simp
  have "sort (map mtime ?L) = map mtime (sort_key mtime ?L)"
    by (rule properties_for_sort) simp_all
  moreover have "sort (map mtime ?L) = rev (map mtime ?L)"
    by (rule properties_for_sort) (use s in \<open>simp_all add: rev_map\<close>)
  ultimately have "map mtime (sort_key mtime ?L) = rev (map mtime ?L)" by simp
  then show ?thesis by (simp add: arraySort_ascending arraySort_descending)
qed

lemma descending_then_ascending_distinct:
  assumes "distinct (map mtime ns)"
  shows "arraySort ascending (arraySort descending ns) = rev (arraySort descending ns)"
proof -
  let ?L = "sort_key (\<lambda>n. - mtime n) ns"
  have "distinct (map mtime ?L)"
    using assms by (metis distinct_map distinct_sort set_sort)
  then have inj: "inj_on mtime (set ?L)" by (simp add: distinct_map)
  have s: "sorted (map mtime (rev ?L))" by (rule sorted_rev_neg) simp
  have "sort_key mtime ?L = rev ?L"
    by (rule sort_key_inj_key_eq) (use inj s in simp_all)
  then show ?thesis by (simp add: arraySort_ascending arraySort_descending)
qed

lemma filter_time_descending:
  "filter (\<lambda>n. mtime n = t) (arraySort descending ns) = filter (\<lambda>n. mtime n = t) ns"
proof -
  have "filter (\<lambda>n. - mtime n = - t) (sort_key (\<lambda>n. - mtime n) ns) = filter (\<lambda>n. - mtime n = - t) ns"
    by (rule sort_key_stable)
  then show ?thesis by (simp add: arraySort_descending)
qed

lemma filter_time_ascending:
  "filter (\<lambda>n. mtime n = t) (arraySort ascending ns) = filter (\<lambda>n. mtime n = t) ns"
  unfolding arraySort_ascending by (rule sort_key_stable)

lemma sorted_rev_descending: "sorted (map mtime (rev (arraySort descending ns)))"
  unfolding arraySort_descending by (rule sorted_rev_neg) simp

lemma descending_then_ascending_exact:
  "arraySort ascending (arraySort descending ns) = rev (arraySort descending ns) \<longleftrightarrow>
   (\<forall>t. filter (\<lambda>n. mtime n = t) ns = rev (filter (\<lambda>n. mtime n = t) ns))"
proof
  assume eq: "arraySort ascending (arraySort descending ns) = rev (arraySort descending ns)"
  show "\<forall>t. filter (\<lambda>n. mtime n = t) ns = rev (filter (\<lambda>n. mtime n = t) ns)"
  proof
    fix t
    have "filter (\<lambda>n. mtime n = t) ns = filter (\<lambda>n. mtime n = t) (arraySort ascending (arraySort descending ns))"
      by (simp add: filter_time_ascending filter_time_descending)
    also have "\<dots> = filter (\<lambda>n. mtime n = t) (rev (arraySort descending ns))"
      by (simp only: eq)
    also have "\<dots> = rev (filter (\<lambda>n. mtime n = t) ns)"
      by (simp add: rev_filter[symmetric] filter_time_descending)
    finally show "filter (\<lambda>n. mtime n = t) ns = rev (filter (\<lambda>n. mtime n = t) ns)" .
  qed
next
  assume pal: "\<forall>t. filter (\<lambda>n. mtime n = t) ns = rev (filter (\<lambda>n. mtime n = t) ns)"
  let ?L = "arraySort descending ns"
  have "sort_key mtime ?L = rev ?L"
  proof (rule properties_for_sort_key)
    show "mset (rev ?L) = mset ?L" by simp
    show "sorted (map mtime (rev ?L))" by (rule sorted_rev_descending)
    fix k assume "k \<in> set (rev ?L)"
    have c: "(\<lambda>x. mtime k = mtime x) = (\<lambda>x. mtime x = mtime k)" by auto
    have "filter (\<lambda>x. mtime k = mtime x) (rev ?L) = rev (filter (\<lambda>x. mtime x = mtime k) ?L)"
      unfolding c by (simp add: rev_filter[symmetric])
    also have "\<dots> = rev (filter (\<lambda>x. mtime x = mtime k) ns)"
      by (simp add: filter_time_descending)
    also have "\<dots> = filter (\<lambda>x. mtime x = mtime k) ns"
      using pal by simp
    also have "\<dots> = filter (\<lambda>x. mtime k = mtime x) ?L"
      unfolding c by (simp only: filter_time_descending)
    finally show "filter (\<lambda>x. mtime k = mtime x) (rev ?L) = filter (\<lambda>x. mtime k = mtime x) ?L" .
  qed
  then show "arraySort ascending ?L = rev ?L" by (simp add: arraySort_ascending)
qed

text \<open>
  C3, as the code has it: sorting descending and then ascending reverses the sequence of
  modification times, and the notes that share a modification time keep the relative
  order they have in the descending list, which is their order in the list that was
  sorted. So the result is the exact reverse of the descending list if and only if
  every group of notes with one modification time reads the same in both directions;
  it is when the modification times are pairwise distinct.
\<close>

theorem sort_toggle_reverses:
  "map mtime (sortNotes Asc (sortNotes Desc ns)) = rev (map mtime (sortNotes Desc ns)) \<and>
   (\<forall>t. filter (\<lambda>n. mtime n = t) (sortNotes Asc (sortNotes Desc ns)) =
        filter (\<lambda>n. mtime n = t) (sortNotes Desc ns) \<and>
        filter (\<lambda>n. mtime n = t) (sortNotes Desc ns) = filter (\<lambda>n. mtime n = t) ns) \<and>
   (sortNotes Asc (sortNotes Desc ns) = rev (sortNotes Desc ns) \<longleftrightarrow>
      (\<forall>t. filter (\<lambda>n. mtime n = t) ns = rev (filter (\<lambda>n. mtime n = t) ns))) \<and>
   (distinct (map mtime ns) \<longrightarrow> sortNotes Asc (sortNotes Desc ns) = rev (sortNotes Desc ns))"
  using descending_then_ascending_times[of ns] descending_then_ascending_distinct[of ns]
    descending_then_ascending_exact[of ns]
  by (simp add: sortNotes_def filter_time_ascending filter_time_descending)

theorem sort_toggle_reverses_witness:
  "sortNotes Asc (sortNotes Desc [noteA, noteC, noteD]) = rev (sortNotes Desc [noteA, noteC, noteD]) \<and>
   sortNotes Desc [noteA, noteC, noteD] = [noteC, noteD, noteA] \<and>
   filter (\<lambda>n. mtime n = 1000) (sortNotes Asc (sortNotes Desc [noteC, noteA, noteB])) = [noteA, noteB] \<and>
   filter (\<lambda>n. mtime n = 1000) (sortNotes Desc [noteC, noteA, noteB]) = [noteA, noteB]"
proof -
  have d: "distinct (map mtime [noteA, noteC, noteD])"
    by (simp add: noteA_def noteC_def noteD_def demoFile_def)
  have s: "sortNotes Desc [noteA, noteC, noteD] = [noteC, noteD, noteA]"
    by (simp add: sortNotes_def arraySort_def descending_def noteA_def noteC_def noteD_def demoFile_def)
  have f: "filter (\<lambda>n. mtime n = 1000) [noteC, noteA, noteB] = [noteA, noteB]"
    by (simp add: noteA_def noteB_def noteC_def demoFile_def)
  from sort_toggle_reverses[of "[noteA, noteC, noteD]"] d
  have 1: "sortNotes Asc (sortNotes Desc [noteA, noteC, noteD]) = rev (sortNotes Desc [noteA, noteC, noteD])"
    by blast
  from sort_toggle_reverses[of "[noteC, noteA, noteB]"]
  have 2: "filter (\<lambda>n. mtime n = 1000) (sortNotes Asc (sortNotes Desc [noteC, noteA, noteB])) =
        filter (\<lambda>n. mtime n = 1000) (sortNotes Desc [noteC, noteA, noteB])"
    and 3: "filter (\<lambda>n. mtime n = 1000) (sortNotes Desc [noteC, noteA, noteB]) =
        filter (\<lambda>n. mtime n = 1000) [noteC, noteA, noteB]"
    by blast+
  from 1 s 2 3 f show ?thesis by simp
qed

text \<open>
  Exact reversal fails for notes that share a modification time: the stable sort keeps them in
  their order, so the second sort returns the list of the first, not its reverse.
\<close>

theorem sort_toggle_counterexample:
  "sortNotes Asc (sortNotes Desc [noteA, noteB]) \<noteq> rev (sortNotes Desc [noteA, noteB])"
  by (simp add: sortNotes_def arraySort_def descending_def ascending_def noteA_def noteB_def
      demoFile_def js_def)

section \<open>Markdown preview: proofs\<close>

lemma length_stripMarkdown: "length (stripMarkdown s) \<le> 100"
  by (simp add: stripMarkdown_def)

lemma lazyUntil_Some: "lazyUntil d v = Some (g, r) \<Longrightarrow> v = g @ d @ r"
proof (induction v arbitrary: g)
  case Nil
  then show ?case by (simp split: if_splits)
next
  case (Cons c cs)
  show ?case
  proof (cases "take (length d) (c # cs) = d")
    case True
    then have "g = []" "r = drop (length d) (c # cs)" using Cons.prems by simp_all
    then show ?thesis using True append_take_drop_id[of "length d" "c # cs"] by simp
  next
    case False
    then obtain g' where "lazyUntil d cs = Some (g', r)" and "g = c # g'"
      using Cons.prems by (auto split: if_splits option.splits)
    then show ?thesis using Cons.IH[of g'] by simp
  qed
qed

lemma matchDelimited_Some: "matchDelimited d u = Some (g, r) \<Longrightarrow> u = d @ g @ d @ r"
proof -
  assume m: "matchDelimited d u = Some (g, r)"
  then have t: "take (length d) u = d" and l: "lazyUntil d (drop (length d) u) = Some (g, r)"
    by (auto simp: matchDelimited_def split: if_splits)
  from lazyUntil_Some[OF l] have "drop (length d) u = g @ d @ r" .
  with t append_take_drop_id[of "length d" u] show ?thesis by simp
qed

lemma matchDelimited_shrinks:
  "d \<noteq> [] \<Longrightarrow> matchDelimited d u = Some (g, r) \<Longrightarrow> length g + length r < length u"
  by (drule matchDelimited_Some) auto

lemma matchLink_shrinks: "matchLink u = Some (g, r) \<Longrightarrow> length g + length r < length u"
proof -
  assume m: "matchLink u = Some (g, r)"
  then obtain c cs where u: "u = c # cs" by (cases u) (auto simp: matchLink_def)
  define afterLabel where "afterLabel = dropWhile (\<lambda>x. x \<noteq> 93) cs"
  define afterUrl where "afterUrl = dropWhile (\<lambda>x. x \<noteq> 41) (drop 2 afterLabel)"
  from m u have g: "g = takeWhile (\<lambda>x. x \<noteq> 93) cs" and r: "r = tl afterUrl"
    and two: "take 2 afterLabel = [93, 40]" and ne: "afterUrl \<noteq> []"
    by (auto simp: matchLink_def Let_def afterLabel_def afterUrl_def split: if_splits)
  have "length g + length afterLabel =
        length (takeWhile (\<lambda>x. x \<noteq> 93) cs @ dropWhile (\<lambda>x. x \<noteq> 93) cs)"
    unfolding g afterLabel_def by (simp only: length_append)
  also have "\<dots> = length cs" by (simp only: takeWhile_dropWhile_id)
  finally have a: "length cs = length g + length afterLabel" by simp
  have "length (take 2 afterLabel) = length [93 :: nat, 40]" by (simp only: two)
  then have "min (length afterLabel) 2 = 2" by (simp only: length_take) simp
  then have b: "2 \<le> length afterLabel" by linarith
  have "length afterUrl \<le> length (drop 2 afterLabel)"
    unfolding afterUrl_def by (rule length_dropWhile_le)
  then have c: "length afterUrl \<le> length afterLabel - 2" by (simp only: length_drop)
  have d: "length r < length afterUrl" using ne r by (cases afterUrl) simp_all
  have lu: "length u = Suc (length cs)" using u by simp
  from a b c d lu show ?thesis by linarith
qed

lemma length_replaceAll_le:
  assumes "\<And>u g r. matchAt u = Some (g, r) \<Longrightarrow> length g + length r < length u"
  shows "length (replaceAll matchAt t) \<le> length t"
proof (induction "length t" arbitrary: t rule: less_induct)
  case less
  show ?case
  proof (cases t)
    case Nil
    then show ?thesis using assms[of "[]"] by (cases "matchAt []") auto
  next
    case (Cons c cs)
    show ?thesis
    proof (cases "matchAt (c # cs)")
      case None
      then show ?thesis using less[of cs] Cons by simp
    next
      case (Some p)
      obtain g r where p: "p = (g, r)" by (cases p)
      from assms[of "c # cs" g r] Some p have s: "length g + length r < length (c # cs)" by simp
      then have "length r < length t" using Cons by simp
      from less[OF this] s Some p Cons show ?thesis by simp
    qed
  qed
qed

lemma length_replaceAll_less:
  assumes "\<And>u g r. matchAt u = Some (g, r) \<Longrightarrow> length g + length r < length u"
  shows "\<not> unmatched matchAt t \<Longrightarrow> length (replaceAll matchAt t) < length t"
proof (induction t)
  case Nil
  then show ?case using assms[of "[]"] by (cases "matchAt []") (auto simp: unmatched_def)
next
  case (Cons c cs)
  show ?case
  proof (cases "matchAt (c # cs)")
    case None
    then have "\<not> unmatched matchAt cs" using Cons.prems by (simp add: unmatched_def)
    from Cons.IH[OF this] None show ?thesis by simp
  next
    case (Some p)
    obtain g r where p: "p = (g, r)" by (cases p)
    from assms[of "c # cs" g r] Some p have s: "length g + length r < length (c # cs)" by simp
    from length_replaceAll_le[of matchAt r, OF assms] s Some p show ?thesis by simp
  qed
qed

lemma replaceAll_unmatched: "unmatched matchAt t \<Longrightarrow> replaceAll matchAt t = t"
  by (induction t) (simp_all add: unmatched_def)

lemma length_removeHeaders_le: "length (removeHeaders s) \<le> length s"
proof -
  have "length (dropWhile isWhiteSpace (dropWhile (\<lambda>x. x = 35) s)) \<le> length (dropWhile (\<lambda>x. x = 35) s)"
    by (rule length_dropWhile_le)
  also have "\<dots> \<le> length s" by (rule length_dropWhile_le)
  finally show ?thesis by (simp add: removeHeaders_def)
qed

lemma length_removeHeaders_less: "take 1 s = [35] \<Longrightarrow> length (removeHeaders s) < length s"
proof -
  assume "take 1 s = [35]"
  then obtain cs where s: "s = 35 # cs" by (cases s) auto
  have "length (dropWhile isWhiteSpace (dropWhile (\<lambda>x. x = 35) cs)) \<le> length (dropWhile (\<lambda>x. x = 35) cs)"
    by (rule length_dropWhile_le)
  also have "\<dots> \<le> length cs" by (rule length_dropWhile_le)
  finally show ?thesis by (simp add: removeHeaders_def s)
qed

lemma removeHeaders_none: "take 1 s \<noteq> [35] \<Longrightarrow> removeHeaders s = s"
  by (cases s) (auto simp: removeHeaders_def)

lemma length_removeBold_le: "length (removeBold s) \<le> length s"
  unfolding removeBold_def by (rule length_replaceAll_le) (rule matchDelimited_shrinks, simp_all)

lemma length_removeItalic_le: "length (removeItalic s) \<le> length s"
  unfolding removeItalic_def by (rule length_replaceAll_le) (rule matchDelimited_shrinks, simp_all)

lemma length_removeInlineCode_le: "length (removeInlineCode s) \<le> length s"
  unfolding removeInlineCode_def by (rule length_replaceAll_le) (rule matchDelimited_shrinks, simp_all)

lemma length_removeLinks_le: "length (removeLinks s) \<le> length s"
  unfolding removeLinks_def by (rule length_replaceAll_le) (rule matchLink_shrinks)

lemma length_stripMarkdown_le: "length (stripMarkdown s) \<le> length (removeHeaders s)"
proof -
  have "length (stripMarkdown s) \<le> length (removeLinks (removeInlineCode (removeItalic (removeBold (removeHeaders s)))))"
    by (simp add: stripMarkdown_def)
  also have "\<dots> \<le> length (removeInlineCode (removeItalic (removeBold (removeHeaders s))))"
    by (rule length_removeLinks_le)
  also have "\<dots> \<le> length (removeItalic (removeBold (removeHeaders s)))"
    by (rule length_removeInlineCode_le)
  also have "\<dots> \<le> length (removeBold (removeHeaders s))"
    by (rule length_removeItalic_le)
  also have "\<dots> \<le> length (removeHeaders s)"
    by (rule length_removeBold_le)
  finally show ?thesis .
qed

lemma stripMarkdown_noMarkup: "noMarkup t \<Longrightarrow> stripMarkdown t = take 100 t"
  by (simp add: noMarkup_def stripMarkdown_def removeHeaders_none removeBold_def removeItalic_def
      removeInlineCode_def removeLinks_def replaceAll_unmatched)

lemma stripMarkdown_shorter: "\<not> noMarkup t \<Longrightarrow> length (stripMarkdown t) < length t"
proof -
  assume n: "\<not> noMarkup t"
  show ?thesis
  proof (cases "take 1 t = [35]")
    case True
    from length_removeHeaders_less[OF True] length_stripMarkdown_le[of t] show ?thesis by simp
  next
    case h: False
    then have hid: "removeHeaders t = t" by (rule removeHeaders_none)
    show ?thesis
    proof (cases "unmatched (matchDelimited [42, 42]) t")
      case False
      have "length (removeBold t) < length t"
        unfolding removeBold_def
        by (rule length_replaceAll_less[OF _ False]) (rule matchDelimited_shrinks, simp_all)
      moreover have "length (stripMarkdown t) \<le> length (removeBold t)"
        using length_removeLinks_le[of "removeInlineCode (removeItalic (removeBold t))"]
          length_removeInlineCode_le[of "removeItalic (removeBold t)"]
          length_removeItalic_le[of "removeBold t"]
        by (simp add: stripMarkdown_def hid)
      ultimately show ?thesis by simp
    next
      case b: True
      then have bid: "removeBold t = t" by (simp add: removeBold_def replaceAll_unmatched)
      show ?thesis
      proof (cases "unmatched (matchDelimited [42]) t")
        case False
        have "length (removeItalic t) < length t"
          unfolding removeItalic_def
          by (rule length_replaceAll_less[OF _ False]) (rule matchDelimited_shrinks, simp_all)
        moreover have "length (stripMarkdown t) \<le> length (removeItalic t)"
          using length_removeLinks_le[of "removeInlineCode (removeItalic t)"]
            length_removeInlineCode_le[of "removeItalic t"]
          by (simp add: stripMarkdown_def hid bid)
        ultimately show ?thesis by simp
      next
        case i: True
        then have iid: "removeItalic t = t" by (simp add: removeItalic_def replaceAll_unmatched)
        show ?thesis
        proof (cases "unmatched (matchDelimited [96]) t")
          case False
          have "length (removeInlineCode t) < length t"
            unfolding removeInlineCode_def
            by (rule length_replaceAll_less[OF _ False]) (rule matchDelimited_shrinks, simp_all)
          moreover have "length (stripMarkdown t) \<le> length (removeInlineCode t)"
            using length_removeLinks_le[of "removeInlineCode t"]
            by (simp add: stripMarkdown_def hid bid iid)
          ultimately show ?thesis by simp
        next
          case c: True
          then have cid: "removeInlineCode t = t"
            by (simp add: removeInlineCode_def replaceAll_unmatched)
          have "\<not> unmatched matchLink t" using n h b i c by (simp add: noMarkup_def)
          then have "length (removeLinks t) < length t"
            unfolding removeLinks_def
            by (rule length_replaceAll_less[rotated]) (rule matchLink_shrinks)
          then show ?thesis by (simp add: stripMarkdown_def hid bid iid cid)
        qed
      qed
    qed
  qed
qed

text \<open>
  C4, as the code has it: every substitution of the chain runs once over the text, and a
  second application changes the stripped text exactly when something is left in it for
  the chain to strip. Stripping is idempotent on an input if and only if its stripped
  text does not start with \<open>#\<close> and holds no match of \<open>**...**\<close>, \<open>*...*\<close>, a backquoted
  span or \<open>[...](...)\<close>; a lone \<open>*\<close>, backquote or \<open>[\<close> does no harm.
\<close>

theorem stripMarkdown_idempotent_iff:
  "stripMarkdown (stripMarkdown s) = stripMarkdown s \<longleftrightarrow> noMarkup (stripMarkdown s)"
proof
  assume "stripMarkdown (stripMarkdown s) = stripMarkdown s"
  then have "\<not> length (stripMarkdown (stripMarkdown s)) < length (stripMarkdown s)" by simp
  then show "noMarkup (stripMarkdown s)" using stripMarkdown_shorter by blast
next
  assume "noMarkup (stripMarkdown s)"
  from stripMarkdown_noMarkup[OF this] length_stripMarkdown[of s]
  show "stripMarkdown (stripMarkdown s) = stripMarkdown s" by simp
qed

lemma plain_text_noMarkup: "noMarkup (stripMarkdown (js ''a * b and x = a[i] + 1''))"
  by code_simp

lemma plain_text_kept: "stripMarkdown (js ''a * b and x = a[i] + 1'') = js ''a * b and x = a[i] + 1''"
  by code_simp

theorem stripMarkdown_idempotent_iff_witness:
  "noMarkup (stripMarkdown (js ''a * b and x = a[i] + 1'')) \<and>
   stripMarkdown (js ''a * b and x = a[i] + 1'') = js ''a * b and x = a[i] + 1'' \<and>
   stripMarkdown (stripMarkdown (js ''a * b and x = a[i] + 1'')) =
     stripMarkdown (js ''a * b and x = a[i] + 1'')"
  using stripMarkdown_idempotent_iff[of "js ''a * b and x = a[i] + 1''"] plain_text_noMarkup
    plain_text_kept
  by blast

text \<open>
  Idempotence fails on \<open># # a\<close>: the first pass removes one header marker and leaves \<open># a\<close>,
  which the second pass turns into \<open>a\<close>.
\<close>

theorem stripMarkdown_counterexample:
  "stripMarkdown (stripMarkdown (js ''# # a'')) \<noteq> stripMarkdown (js ''# # a'')"
  by (simp add: stripMarkdown_def removeLinks_def removeInlineCode_def removeItalic_def removeBold_def
      removeHeaders_def matchDelimited_def matchLink_def isWhiteSpace_def js_def)

section \<open>Dates: proofs\<close>

lemma div_unique_int: "0 \<le> r \<Longrightarrow> r < k \<Longrightarrow> (k * q + r) div k = q" for r k q :: int
  by (simp add: div_pos_pos_trivial)

lemma mod_unique_int: "0 \<le> r \<Longrightarrow> r < k \<Longrightarrow> (k * q + r) mod k = r" for r k q :: int
  by (simp add: mod_pos_pos_trivial)

lemma div_step:
  fixes x k :: int
  assumes "0 < k"
  shows "(x + 1) div k = x div k + (if (x + 1) mod k = 0 then 1 else 0)"
proof -
  have b: "0 \<le> x mod k" "x mod k < k" using assms by simp_all
  have e: "x + 1 = k * (x div k) + (x mod k + 1)"
    using mult_div_mod_eq[of k x] by linarith
  show ?thesis
  proof (cases "x mod k + 1 = k")
    case True
    then have e': "x + 1 = k * (x div k + 1) + 0"
      using e by (simp add: algebra_simps)
    have "(x + 1) div k = x div k + 1"
      by (subst e') (rule div_unique_int, use assms in simp_all)
    moreover have "(x + 1) mod k = 0"
      by (subst e') (rule mod_unique_int, use assms in simp_all)
    ultimately show ?thesis by simp
  next
    case False
    with b have r: "0 \<le> x mod k + 1" "x mod k + 1 < k" by simp_all
    have "(x + 1) div k = x div k"
      by (subst e) (rule div_unique_int[OF r])
    moreover have "(x + 1) mod k = x mod k + 1"
      by (subst e) (rule mod_unique_int[OF r])
    ultimately show ?thesis using b by simp
  qed
qed

lemma mod_shift: "(x - k * c) mod k = x mod k" for x k c :: int
  using mod_mult_self2[of x k "- c"] by simp

lemma DayFromYear_Suc: "DayFromYear (y + 1) = DayFromYear y + DaysInYear y"
proof -
  have "(y - 1969 + 1) mod 4 = y mod 4" using mod_shift[of y 4 492] by simp
  then have a: "(y + 1 - 1969) div 4 = (y - 1969) div 4 + (if y mod 4 = 0 then 1 else 0)"
    using div_step[of 4 "y - 1969"] by (simp add: algebra_simps)
  have "(y - 1901 + 1) mod 100 = y mod 100" using mod_shift[of y 100 19] by simp
  then have b: "(y + 1 - 1901) div 100 = (y - 1901) div 100 + (if y mod 100 = 0 then 1 else 0)"
    using div_step[of 100 "y - 1901"] by (simp add: algebra_simps)
  have "(y - 1601 + 1) mod 400 = y mod 400" using mod_shift[of y 400 4] by simp
  then have c: "(y + 1 - 1601) div 400 = (y - 1601) div 400 + (if y mod 400 = 0 then 1 else 0)"
    using div_step[of 400 "y - 1601"] by (simp add: algebra_simps)
  have d: "y mod 400 = 0 \<Longrightarrow> y mod 100 = 0" "y mod 100 = 0 \<Longrightarrow> y mod 4 = 0"
    by (simp_all add: mod_eq_0_iff_dvd) (use dvd_trans[of 100 400 y] dvd_trans[of 4 100 y] in auto)
  show ?thesis
    unfolding DayFromYear_def DaysInYear_def a b c using d by auto
qed


lemma div_eqI: "y = k * q + r \<Longrightarrow> 0 \<le> r \<Longrightarrow> r < k \<Longrightarrow> y div k = q" for y k q r :: int
  using div_unique_int[of r k q] by simp

lemma mod_eqI: "y = k * q + r \<Longrightarrow> 0 \<le> r \<Longrightarrow> r < k \<Longrightarrow> y mod k = r" for y k q r :: int
  using mod_unique_int[of r k q] by simp

lemma DayFromYear_cycles:
  assumes "0 \<le> b" "b \<le> 3" "0 \<le> c" "c \<le> 24" "0 \<le> e" "e \<le> 3"
  shows "DayFromYear (1601 + 400 * a + 100 * b + 4 * c + e) =
         146097 * a + 36524 * b + 1461 * c + 365 * e - 134774"
proof -
  let ?y = "1601 + 400 * a + 100 * b + 4 * c + e"
  have d4: "(?y - 1969) div 4 = 100 * a + 25 * b + c - 92"
    by (rule div_eqI[where r = e]) (use assms in auto)
  have d100: "(?y - 1901) div 100 = 4 * a + b - 3"
    by (rule div_eqI[where r = "4 * c + e"]) (use assms in auto)
  have d400: "(?y - 1601) div 400 = a"
    by (rule div_eqI[where r = "100 * b + 4 * c + e"]) (use assms in auto)
  show ?thesis unfolding DayFromYear_def d4 d100 d400 by simp
qed

lemma DaysInYear_cycles:
  assumes "0 \<le> b" "b \<le> 3" "0 \<le> c" "c \<le> 24" "0 \<le> e" "e \<le> 3"
  shows "DaysInYear (1601 + 400 * a + 100 * b + 4 * c + e) =
         (if e = 3 \<and> (c \<noteq> 24 \<or> b = 3) then 366 else 365)"
proof -
  let ?y = "1601 + 400 * a + 100 * b + 4 * c + e"
  have m4: "?y mod 4 = (if e = 3 then 0 else 1 + e)"
  proof (cases "e = 3")
    case True
    have "?y mod 4 = 0"
      by (rule mod_eqI[where q = "401 + 100 * a + 25 * b + c"]) (use True in auto)
    then show ?thesis using True by simp
  next
    case False
    have "?y mod 4 = 1 + e"
      by (rule mod_eqI[where q = "400 + 100 * a + 25 * b + c"]) (use False assms in auto)
    then show ?thesis using False by simp
  qed
  have m100: "?y mod 100 = (if c = 24 \<and> e = 3 then 0 else 1 + 4 * c + e)"
  proof (cases "c = 24 \<and> e = 3")
    case True
    have "?y mod 100 = 0"
      by (rule mod_eqI[where q = "17 + 4 * a + b"]) (use True in auto)
    then show ?thesis using True by simp
  next
    case False
    have "?y mod 100 = 1 + 4 * c + e"
      by (rule mod_eqI[where q = "16 + 4 * a + b"]) (use False assms in auto)
    then show ?thesis using False by auto
  qed
  have m400: "?y mod 400 = (if b = 3 \<and> c = 24 \<and> e = 3 then 0 else 1 + 100 * b + 4 * c + e)"
  proof (cases "b = 3 \<and> c = 24 \<and> e = 3")
    case True
    have "?y mod 400 = 0"
      by (rule mod_eqI[where q = "5 + a"]) (use True in auto)
    then show ?thesis using True by simp
  next
    case False
    have "?y mod 400 = 1 + 100 * b + 4 * c + e"
      by (rule mod_eqI[where q = "4 + a"]) (use False assms in auto)
    then show ?thesis using False by auto
  qed
  show ?thesis unfolding DaysInYear_def m4 m100 m400 using assms by auto
qed


lemma YearFromDay_bounds:
  "DayFromYear (YearFromDay d) \<le> d \<and> d < DayFromYear (YearFromDay d) + DaysInYear (YearFromDay d)"
proof -
  define n where "n = d + 134774"
  define a where "a = n div 146097"
  define r where "r = n mod 146097"
  define q where "q = r div 36524"
  define b where "b = min 3 q"
  define r' where "r' = r - 36524 * b"
  define c where "c = r' div 1461"
  define r4 where "r4 = r' mod 1461"
  define q4 where "q4 = r4 div 365"
  define e where "e = min 3 q4"
  define doy where "doy = r4 - 365 * e"
  have y: "YearFromDay d = 1601 + 400 * a + 100 * b + 4 * c + e"
    by (simp add: YearFromDay_def Let_def n_def a_def r_def q_def b_def r'_def c_def r4_def q4_def e_def)
  have n: "n = 146097 * a + r" by (simp add: a_def r_def)
  have r: "0 \<le> r" "r < 146097" by (simp_all add: r_def)
  have rq: "r = 36524 * q + r mod 36524" by (simp add: q_def)
  have rm: "0 \<le> r mod 36524" "r mod 36524 < 36524" by simp_all
  have q: "0 \<le> q" "q \<le> 4" using r rq rm by linarith+
  have b: "0 \<le> b" "b \<le> 3" using q by (simp_all add: b_def)
  have r': "0 \<le> r'" "r' \<le> 36524" "b < 3 \<longrightarrow> r' \<le> 36523"
    using r rq rm q by (auto simp: r'_def b_def min_def)
  have r'c: "r' = 1461 * c + r4" by (simp add: c_def r4_def)
  have r4: "0 \<le> r4" "r4 < 1461" by (simp_all add: r4_def)
  have c: "0 \<le> c" "c \<le> 24" using r' r'c r4 by linarith+
  have c24: "c = 24 \<and> b < 3 \<longrightarrow> r4 \<le> 1459" using r' r'c by auto
  have r4q: "r4 = 365 * q4 + r4 mod 365" by (simp add: q4_def)
  have r4m: "0 \<le> r4 mod 365" "r4 mod 365 < 365" by simp_all
  have q4: "0 \<le> q4" "q4 \<le> 4" using r4 r4q r4m by linarith+
  have e: "0 \<le> e" "e \<le> 3" using q4 by (simp_all add: e_def)
  have doy: "0 \<le> doy" "doy \<le> 365" "doy = 365 \<longrightarrow> e = 3 \<and> r4 = 1460"
    using r4 r4q r4m q4 by (auto simp: doy_def e_def min_def)
  have dfy: "DayFromYear (YearFromDay d) = 146097 * a + 36524 * b + 1461 * c + 365 * e - 134774"
    unfolding y by (rule DayFromYear_cycles[OF b c e])
  have diy: "DaysInYear (YearFromDay d) = (if e = 3 \<and> (c \<noteq> 24 \<or> b = 3) then 366 else 365)"
    unfolding y by (rule DaysInYear_cycles[OF b c e])
  have d: "d = DayFromYear (YearFromDay d) + doy"
    unfolding dfy using n r'c by (simp add: n_def r'_def doy_def)
  have "doy < DaysInYear (YearFromDay d)"
  proof (cases "doy = 365")
    case True
    then have "e = 3" "r4 = 1460" using doy(3) by simp_all
    then have "c \<noteq> 24 \<or> b = 3" using c24 b by auto
    then show ?thesis using True \<open>e = 3\<close> by (simp add: diy)
  next
    case False
    then show ?thesis using doy by (simp add: diy)
  qed
  with d doy(1) show ?thesis by linarith
qed

lemma DaysInYear_pos: "0 < DaysInYear y"
  by (simp add: DaysInYear_def)

lemma DayFromYear_le_add: "DayFromYear y \<le> DayFromYear (y + int k)"
proof (induction k)
  case 0
  then show ?case by simp
next
  case (Suc k)
  have "DayFromYear (y + int (Suc k)) = DayFromYear (y + int k) + DaysInYear (y + int k)"
    using DayFromYear_Suc[of "y + int k"] by (simp add: algebra_simps)
  with Suc DaysInYear_pos[of "y + int k"] show ?case by linarith
qed

lemma DayFromYear_mono: "y \<le> y' \<Longrightarrow> DayFromYear y \<le> DayFromYear y'"
  using DayFromYear_le_add[of y "nat (y' - y)"] by simp

lemma YearFromDay_unique:
  assumes "DayFromYear y \<le> d" and "d < DayFromYear y + DaysInYear y"
  shows "YearFromDay d = y"
proof (rule ccontr)
  assume ne: "YearFromDay d \<noteq> y"
  let ?z = "YearFromDay d"
  from YearFromDay_bounds[of d]
  have z: "DayFromYear ?z \<le> d" "d < DayFromYear (?z + 1)"
    by (simp_all add: DayFromYear_Suc)
  from ne consider "?z + 1 \<le> y" | "y + 1 \<le> ?z" by linarith
  then show False
  proof cases
    case 1
    from DayFromYear_mono[OF 1] z(2) assms(1) show False by linarith
  next
    case 2
    from DayFromYear_mono[OF 2] z(1) assms(2) show False by (simp add: DayFromYear_Suc)
  qed
qed


lemma DaysInYear_cases: "DaysInYear y = 365 \<or> DaysInYear y = 366"
  by (simp add: DaysInYear_def)

lemma DayWithinYear_bounds:
  "0 \<le> DayWithinYear t" "DayWithinYear t < DaysInYear (YearFromTime t)"
  using YearFromDay_bounds[of "Day t"] by (simp_all add: DayWithinYear_def YearFromTime_def)


lemma DateFromTime_range:
  "1 \<le> DateFromTime t \<and> DateFromTime t \<le> DaysInMonth (YearFromTime t) (MonthFromTime t)"
proof -
  define d where "d = DayWithinYear t"
  define y where "y = YearFromTime t"
  have d: "0 \<le> d" "d < DaysInYear y"
    using DayWithinYear_bounds[of t] by (simp_all add: d_def y_def)
  consider "DaysInYear y = 365" | "DaysInYear y = 366" using DaysInYear_cases[of y] by blast
  then show ?thesis
  proof cases
    case 1
    then have l: "InLeapYear t = 0" by (simp add: InLeapYear_def y_def)
    show ?thesis
      using d 1 unfolding DateFromTime_def MonthFromTime_def DaysInMonth_def Let_def l
        d_def[symmetric] y_def[symmetric]
      by (simp split: if_splits)
  next
    case 2
    then have l: "InLeapYear t = 1" by (simp add: InLeapYear_def y_def)
    show ?thesis
      using d 2 unfolding DateFromTime_def MonthFromTime_def DaysInMonth_def Let_def l
        d_def[symmetric] y_def[symmetric]
      by (simp split: if_splits)
  qed
qed


lemma Day_MakeDate: "0 \<le> tw \<Longrightarrow> tw < msPerDay \<Longrightarrow> Day (MakeDate dy tw) = dy"
  unfolding Day_def MakeDate_def by (rule div_eqI[where r = tw]) simp_all

lemma TimeWithinDay_MakeDate:
  "0 \<le> tw \<Longrightarrow> tw < msPerDay \<Longrightarrow> TimeWithinDay (MakeDate dy tw) = tw"
  unfolding TimeWithinDay_def MakeDate_def by (rule mod_eqI[where q = dy]) simp_all

lemma month_disj:
  fixes m :: int
  assumes "0 \<le> m" "m \<le> 11"
  shows "m = 0 \<or> m = 1 \<or> m = 2 \<or> m = 3 \<or> m = 4 \<or> m = 5 \<or>
         m = 6 \<or> m = 7 \<or> m = 8 \<or> m = 9 \<or> m = 10 \<or> m = 11"
proof -
  have "m \<in> {0..11}" using assms by simp
  also have "{0..11::int} = set [0..11]" by simp
  also have "\<dots> = {0, 1, 2, 3, 4, 5, 6, 7, 8, 9, 10, 11}" by (simp add: upto.simps)
  finally show ?thesis by simp
qed

lemma month_cases:
  fixes m :: int
  assumes "0 \<le> m" "m \<le> 11"
  obtains "m = 0" | "m = 1" | "m = 2" | "m = 3" | "m = 4" | "m = 5"
    | "m = 6" | "m = 7" | "m = 8" | "m = 9" | "m = 10" | "m = 11"
  using month_disj[OF assms] by blast

lemma MakeDay_in_range:
  "0 \<le> m \<Longrightarrow> m \<le> 11 \<Longrightarrow>
   MakeDay y m dt = DayFromYear y + monthStart m (if DaysInYear y = 366 then 1 else 0) + dt - 1"
  by (simp add: MakeDay_def Let_def div_pos_pos_trivial mod_pos_pos_trivial)

lemma civil_of_day:
  assumes m: "0 \<le> m" "m \<le> 11" and dt: "1 \<le> dt" "dt \<le> DaysInMonth y m"
    and day: "Day t = MakeDay y m dt"
  shows "YearFromTime t = y \<and> MonthFromTime t = m \<and> DateFromTime t = dt"
proof -
  define l :: int where "l = (if DaysInYear y = 366 then 1 else 0)"
  define k where "k = monthStart m l + dt - 1"
  have diy: "DaysInYear y = 365 + l"
    using DaysInYear_cases[of y] by (auto simp: l_def)
  have l01: "l = 0 \<or> l = 1" by (simp add: l_def)
  have dim: "DaysInMonth y m = (if m = 1 then 28 + l
      else if m = 3 \<or> m = 5 \<or> m = 8 \<or> m = 10 then 30 else 31)"
    by (simp add: DaysInMonth_def l_def)
  have dayk: "Day t = DayFromYear y + k"
    using day MakeDay_in_range[OF m, of y dt] by (simp add: k_def l_def)
  have k0: "0 \<le> k"
    using dt l01 unfolding k_def dim monthStart_def
    by (cases rule: month_cases[OF m]) auto
  have k1: "k < 365 + l"
    using dt l01 unfolding k_def dim monthStart_def
    by (cases rule: month_cases[OF m]) auto
  note k = k0 k1
  have yr: "YearFromTime t = y"
    unfolding YearFromTime_def by (rule YearFromDay_unique) (use dayk k diy in simp_all)
  have dwy: "DayWithinYear t = k" by (simp add: DayWithinYear_def yr dayk)
  have ily: "InLeapYear t = l" by (simp add: InLeapYear_def yr l_def)
  have mo: "MonthFromTime t = m"
    unfolding MonthFromTime_def Let_def dwy ily k_def monthStart_def
    using dt l01 unfolding dim
    by (cases rule: month_cases[OF m]) auto
  have "DateFromTime t = dt"
    unfolding DateFromTime_def Let_def mo dwy ily k_def monthStart_def
    by (cases rule: month_cases[OF m]) auto
  with yr mo show ?thesis by simp
qed

lemma MakeDay_month_end:
  assumes "0 \<le> m" "m \<le> 11"
  shows "MakeDay y (m + 1) 0 = MakeDay y m (DaysInMonth y m)"
proof (cases "m = 11")
  case True
  have "MakeDay y 12 0 = DayFromYear (y + 1) - 1"
    by (simp add: MakeDay_def Let_def monthStart_def)
  also have "\<dots> = DayFromYear y + DaysInYear y - 1" by (simp add: DayFromYear_Suc)
  finally show ?thesis
    using True DaysInYear_cases[of y]
    by (auto simp: MakeDay_in_range monthStart_def DaysInMonth_def)
next
  case False
  then have m': "0 \<le> m + 1" "m + 1 \<le> 11" using assms by simp_all
  show ?thesis
    unfolding MakeDay_in_range[OF m'] MakeDay_in_range[OF assms]
    by (cases rule: month_cases[OF assms]) (use False in \<open>auto simp: monthStart_def DaysInMonth_def\<close>)
qed

lemma DaysInMonth_range: "28 \<le> DaysInMonth y m \<and> DaysInMonth y m \<le> 31"
  by (simp add: DaysInMonth_def)

section \<open>Calendar view: proofs\<close>

declare digits.simps [simp del]

lemma digits_nonempty: "digits n \<noteq> []"
  by (subst digits.simps) simp

lemma digits_inj: "digits n = digits m \<Longrightarrow> n = m"
proof (induction n arbitrary: m rule: digits.induct)
  case (1 n)
  show ?case
  proof (cases "n < 10")
    case True
    show ?thesis
    proof (cases "m < 10")
      case mT: True
      from "1.prems" True mT show ?thesis
        by (subst (asm) digits.simps, subst (asm) (2) digits.simps) simp
    next
      case mF: False
      from "1.prems" True mF have "[48 + n] = digits (m div 10) @ [48 + m mod 10]"
        by (subst (asm) digits.simps, subst (asm) (2) digits.simps) simp
      then have "digits (m div 10) = []" by simp
      with digits_nonempty show ?thesis by blast
    qed
  next
    case False
    show ?thesis
    proof (cases "m < 10")
      case mT: True
      from "1.prems" False mT have "digits (n div 10) @ [48 + n mod 10] = [48 + m]"
        by (subst (asm) digits.simps, subst (asm) (2) digits.simps) simp
      then have "digits (n div 10) = []" by simp
      with digits_nonempty show ?thesis by blast
    next
      case mF: False
      from "1.prems" False mF
      have "digits (n div 10) @ [48 + n mod 10] = digits (m div 10) @ [48 + m mod 10]"
        by (subst (asm) digits.simps, subst (asm) (2) digits.simps) simp
      then have d: "digits (n div 10) = digits (m div 10)" and r: "n mod 10 = m mod 10"
        by simp_all
      from "1.IH"[OF False d] have "n div 10 = m div 10" .
      with r show ?thesis by (metis div_mult_mod_eq)
    qed
  qed
qed

lemma numberToString_inj:
  "0 \<le> a \<Longrightarrow> 0 \<le> b \<Longrightarrow> numberToString a = numberToString b \<Longrightarrow> a = b"
proof -
  assume a: "0 \<le> a" and b: "0 \<le> b" and e: "numberToString a = numberToString b"
  then have "digits (nat a) = digits (nat b)" by (simp add: numberToString_def)
  then have "nat a = nat b" by (rule digits_inj)
  with a b show ?thesis by simp
qed



lemma LocalTime_UTC_fixedOffset: "LocalTime (fixedOffset tza) (UTC (fixedOffset tza) t) = t"
  by (simp add: LocalTime_def UTC_def fixedOffset_def)

lemma msPerDay_pos: "0 < msPerDay"
  by (simp add: msPerDay_def)

lemma Day_midnight: "Day (MakeDate dy (MakeTime 0 0 0 0)) = dy"
  by (rule Day_MakeDate) (simp_all add: MakeTime_def msPerDay_def)


lemma keepsDay_fixedOffset: "keepsDay (fixedOffset tza) d"
  by (simp add: keepsDay_def LocalTime_UTC_fixedOffset Day_midnight)

lemma Day_newDate:
  "keepsDay z (MakeDay (MakeFullYear y) mo d) \<Longrightarrow>
   Day (LocalTime z (newDate z y mo d)) = MakeDay (MakeFullYear y) mo d"
  by (simp add: keepsDay_def newDate_def)


lemma daysInMonth_code:
  assumes m: "0 \<le> m" "m \<le> 11" and k: "keepsDay z (MakeDay (MakeFullYear y) (m + 1) 0)"
  shows "getDate z (newDate z y (m + 1) 0) = DaysInMonth (MakeFullYear y) m"
proof -
  define yr where "yr = MakeFullYear y"
  define t where "t = LocalTime z (newDate z y (m + 1) 0)"
  have day: "Day t = MakeDay yr m (DaysInMonth yr m)"
    unfolding t_def yr_def Day_newDate[OF k] by (rule MakeDay_month_end[OF m])
  have "1 \<le> DaysInMonth yr m" using DaysInMonth_range[of yr m] by simp
  from civil_of_day[OF m this order_refl day]
  have "DateFromTime t = DaysInMonth yr m" by simp
  then show ?thesis
    by (simp add: getDate_def t_def yr_def)
qed


lemma getDate_range:
  "1 \<le> getDate z t \<and> getDate z t \<le> DaysInMonth (getFullYear z t) (getMonth z t)"
  using DateFromTime_range[of "LocalTime z t"]
  by (simp add: getDate_def getFullYear_def getMonth_def)

lemma addByDate_lookup:
  "addByDate z year month b n k =
   (if inMonth z year month n \<and> numberToString (getDate z (mtime n)) = k
    then Some ((case b k of None \<Rightarrow> [] | Some l \<Rightarrow> l) @ [n]) else b k)"
  by (simp add: addByDate_def Let_def inMonth_def pushNote_def)

lemma notesByDate_fold:
  "foldl (addByDate z year month) b ns k =
   (if filter (\<lambda>n. inMonth z year month n \<and> numberToString (getDate z (mtime n)) = k) ns = []
    then b k
    else Some ((case b k of None \<Rightarrow> [] | Some l \<Rightarrow> l) @
               filter (\<lambda>n. inMonth z year month n \<and> numberToString (getDate z (mtime n)) = k) ns))"
proof (induction ns arbitrary: b)
  case Nil
  then show ?case by simp
next
  case (Cons n ns)
  have "foldl (addByDate z year month) b (n # ns) k =
        foldl (addByDate z year month) (addByDate z year month b n) ns k" by simp
  also note Cons.IH[of "addByDate z year month b n"]
  finally have f: "foldl (addByDate z year month) b (n # ns) k =
    (if filter (\<lambda>n. inMonth z year month n \<and> numberToString (getDate z (mtime n)) = k) ns = []
     then addByDate z year month b n k
     else Some ((case addByDate z year month b n k of None \<Rightarrow> [] | Some l \<Rightarrow> l) @
               filter (\<lambda>n. inMonth z year month n \<and> numberToString (getDate z (mtime n)) = k) ns))" .
  show ?case by (subst f) (simp add: addByDate_lookup)
qed

lemma notesByDate_lookup:
  "notesByDate z year month ns k =
   (let hits = filter (\<lambda>n. inMonth z year month n \<and> numberToString (getDate z (mtime n)) = k) ns
    in if hits = [] then None else Some hits)"
  unfolding notesByDate_def notesByDate_fold by (simp add: Let_def)

lemma dayCell_has_notes:
  "''has-notes'' \<in> set (classes (dayCell z now year month h byDate d)) \<longleftrightarrow>
   (\<exists>l. byDate (numberToString d) = Some l \<and> l \<noteq> [])"
  by (auto simp: dayCell_def Let_def split: option.splits)

lemma dayCell_badges:
  "length (badges (dayCell z now year month h byDate d)) =
   (if \<exists>l. byDate (numberToString d) = Some l \<and> l \<noteq> [] then 1 else 0)"
  by (auto simp: dayCell_def Let_def split: option.splits)

lemma dayCell_text: "cellText (dayCell z now year month h byDate d) = numberToString d"
  by (auto simp: dayCell_def Let_def split: option.splits)

lemma bucket_nonempty:
  assumes "1 \<le> d"
  shows "(\<exists>l. notesByDate z year month ns (numberToString d) = Some l \<and> l \<noteq> []) \<longleftrightarrow>
         (\<exists>n \<in> set ns. inMonth z year month n \<and> getDate z (mtime n) = d)"
proof -
  have eq: "numberToString (getDate z (mtime n)) = numberToString d \<longleftrightarrow> getDate z (mtime n) = d" for n
    using numberToString_inj[of "getDate z (mtime n)" d] getDate_range[of z "mtime n"] assms
    by auto
  show ?thesis
    unfolding notesByDate_lookup Let_def by (auto simp: filter_empty_conv eq)
qed



lemma month_has_notes_list:
  "length (filter (\<lambda>c. ''has-notes'' \<in> set (classes c))
       (dayCells (renderMonthView z now prefs ns date h))) =
   length (filter
     (\<lambda>d. d \<in> set (map (\<lambda>n. getDate z (mtime n))
                (filter (\<lambda>n. getFullYear z (mtime n) = getFullYear z date \<and>
                              getMonth z (mtime n) = getMonth z date) ns)))
     [1..getDate z (newDate z (getFullYear z date) (getMonth z date + 1) 0)])"
proof -
  let ?y = "getFullYear z date" and ?m = "getMonth z date"
  let ?dim = "getDate z (newDate z ?y (?m + 1) 0)"
  let ?by = "notesByDate z ?y ?m ns"
  have e: "filter (\<lambda>c. ''has-notes'' \<in> set (classes c)) (replicate k emptyCell) = []" for k
    by (simp add: emptyCell_def)
  have "length (filter (\<lambda>c. ''has-notes'' \<in> set (classes c))
       (dayCells (renderMonthView z now prefs ns date h))) =
     length (filter (\<lambda>d. \<exists>l. ?by (numberToString d) = Some l \<and> l \<noteq> []) [1..?dim])"
    by (simp add: renderMonthView_def Let_def e filter_map o_def dayCell_has_notes)
  also have "filter (\<lambda>d. \<exists>l. ?by (numberToString d) = Some l \<and> l \<noteq> []) [1..?dim] =
     filter (\<lambda>d. d \<in> set (map (\<lambda>n. getDate z (mtime n))
                (filter (\<lambda>n. getFullYear z (mtime n) = ?y \<and> getMonth z (mtime n) = ?m) ns)))
       [1..?dim]"
  proof (rule filter_cong[OF refl])
    fix d assume "d \<in> set [1..?dim]"
    then have "1 \<le> d" by simp
    from bucket_nonempty[OF this, of z ?y ?m ns]
    show "(\<exists>l. ?by (numberToString d) = Some l \<and> l \<noteq> []) \<longleftrightarrow>
          d \<in> set (map (\<lambda>n. getDate z (mtime n))
                (filter (\<lambda>n. getFullYear z (mtime n) = ?y \<and> getMonth z (mtime n) = ?m) ns))"
      by (auto simp: inMonth_def)
  qed
  finally show ?thesis .
qed



























text \<open>
  It falls short too in a zone that leaves the last day of the month out of its calendar.
  In \<open>Pacific/Kiritimati\<close>, \<open>new Date(1994, 12, 0)\<close> is 1 January 1995, so the grid of December
  1994 has one day cell, and notes of 10 and 20 December mark none.
\<close>

lemma december_1994_civil:
  "\<not> keepsDay kiritimati1994 (MakeDay 1994 12 0) \<and>
   getFullYear kiritimati1994 december1994Cursor = 1994 \<and>
   getMonth kiritimati1994 december1994Cursor = 11 \<and>
   getDate kiritimati1994 (newDate kiritimati1994 1994 12 0) = 1"
  by code_simp

lemma december_1994_month_days:
  "map (\<lambda>n. getDate kiritimati1994 (mtime n))
     (filter (\<lambda>n. getFullYear kiritimati1994 (mtime n) = getFullYear kiritimati1994 december1994Cursor \<and>
                   getMonth kiritimati1994 (mtime n) = getMonth kiritimati1994 december1994Cursor)
        december1994Notes) =
   [10, 20]"
  by code_simp

lemma december_1994_last_day:
  "getDate kiritimati1994
     (newDate kiritimati1994 (getFullYear kiritimati1994 december1994Cursor)
        (getMonth kiritimati1994 december1994Cursor + 1) 0) = 1"
  by code_simp

lemma december_1994_marked: "length (filter (\<lambda>d. d \<in> set [10, 20]) [1..1 :: int]) = 0"
  by code_simp

lemma december_1994_kiritimati:
  "length (filter (\<lambda>c. ''has-notes'' \<in> set (classes c))
     (dayCells (renderMonthView kiritimati1994 december1994Cursor mondayFirst december1994Notes
        december1994Cursor None))) = 0"
  unfolding month_has_notes_list december_1994_month_days december_1994_last_day
  by (rule december_1994_marked)

lemma filter_eq_single: "distinct xs \<Longrightarrow> k \<in> set xs \<Longrightarrow> filter (\<lambda>x. x = k) xs = [k]"
proof (induction xs)
  case Nil
  then show ?case by simp
next
  case (Cons x xs)
  show ?case
  proof (cases "x = k")
    case True
    then have "k \<notin> set xs" using Cons.prems by simp
    then have "filter (\<lambda>x. x = k) xs = []" by (auto simp: filter_empty_conv)
    with True show ?thesis by simp
  next
    case False
    then show ?thesis using Cons by auto
  qed
qed

lemma day_cell_unique:
  assumes "1 \<le> k" "k \<le> n"
  shows "filter (\<lambda>c. cellText c = numberToString k) (map (dayCell z now y m h byDate) [1..n]) =
         [dayCell z now y m h byDate k]"
proof -
  have "filter (\<lambda>d. numberToString d = numberToString k) [1..n] = filter (\<lambda>d. d = k) [1..n]"
    by (rule filter_cong[OF refl]) (use assms numberToString_inj in auto)
  also have "\<dots> = [k]" by (rule filter_eq_single) (use assms in simp_all)
  finally show ?thesis by (simp add: filter_map o_def dayCell_text)
qed

lemma getDay_newDate:
  "keepsDay z (MakeDay (MakeFullYear y) m d) \<Longrightarrow>
   getDay z (newDate z y m d) = WeekDay (MakeDate (MakeDay (MakeFullYear y) m d) (MakeTime 0 0 0 0))"
  by (simp add: getDay_def WeekDay_def Day_newDate Day_midnight)

lemma WeekDay_range: "0 \<le> WeekDay t \<and> WeekDay t \<le> 6"
  by (simp add: WeekDay_def)

lemma numberToString_nonempty: "numberToString i \<noteq> []"
  by (simp add: numberToString_def digits_nonempty)

lemma emptyCell_not_day: "dayCell z now y m h byDate d \<noteq> emptyCell"
proof
  assume "dayCell z now y m h byDate d = emptyCell"
  then have "cellText (dayCell z now y m h byDate d) = cellText emptyCell" by simp
  then show False
    by (simp add: dayCell_text emptyCell_def numberToString_nonempty)
qed

lemma first_cell_monday_first:
  assumes "calendarFirstDayOfWeek prefs = 1"
  shows "take 1 (dayCells (renderMonthView z now prefs ns date h)) = [emptyCell] \<longleftrightarrow>
         getDay z (newDate z (getFullYear z date) (getMonth z date) 1) \<noteq> 1"
proof -
  let ?y = "getFullYear z date" and ?m = "getMonth z date"
  define fd where "fd = getDay z (newDate z ?y ?m 1)"
  define dim where "dim = getDate z (newDate z ?y (?m + 1) 0)"
  define k where "k = (if fd = 0 then 6 else fd - 1)"
  define dc where "dc = dayCell z now ?y ?m h (notesByDate z ?y ?m ns)"
  have fd: "0 \<le> fd" "fd \<le> 6" using WeekDay_range by (simp_all add: fd_def getDay_def)
  have dim: "1 \<le> dim" using getDate_range by (simp add: dim_def)
  have cells: "dayCells (renderMonthView z now prefs ns date h) =
      replicate (nat k) emptyCell @ map dc [1..dim]"
    by (simp add: renderMonthView_def Let_def assms fd_def dim_def k_def dc_def)
  have days: "[1..dim] = 1 # [2..dim]" using dim by (simp add: upto.simps)
  show ?thesis
  proof (cases "fd = 1")
    case True
    then have "nat k = 0" by (simp add: k_def)
    then have "take 1 (dayCells (renderMonthView z now prefs ns date h)) = [dc 1]"
      unfolding cells days by simp
    moreover have "dc 1 \<noteq> emptyCell" unfolding dc_def by (rule emptyCell_not_day)
    ultimately show ?thesis using True by (simp add: fd_def)
  next
    case False
    then have "0 < nat k" using fd by (auto simp: k_def)
    then obtain j where "nat k = Suc j" by (cases "nat k") auto
    then have "take 1 (dayCells (renderMonthView z now prefs ns date h)) = [emptyCell]"
      unfolding cells by simp
    then show ?thesis using False by (simp add: fd_def)
  qed
qed

lemma march_2024_length: "DaysInMonth 2024 2 = 31"
  by (simp add: DaysInMonth_def)

lemma march_2024_weekday: "WeekDay (MakeDate (MakeDay 2024 2 1) (MakeTime 0 0 0 0)) = 5"
  by code_simp

lemma march_2024_month_view_zone:
  assumes "getFullYear z date = 2024" and "getMonth z date = 2"
    and "calendarFirstDayOfWeek prefs = 1"
    and k1: "keepsDay z (MakeDay 2024 2 1)" and k31: "keepsDay z (MakeDay 2024 3 0)"
  shows "(take 1 (dayCells (renderMonthView z now prefs ns date h)) = [emptyCell] \<longleftrightarrow>
            WeekDay (MakeDate (MakeDay 2024 2 1) (MakeTime 0 0 0 0)) \<noteq> 1) \<and>
         (\<exists>c. filter (\<lambda>c. cellText c = numberToString 15)
                 (dayCells (renderMonthView z now prefs ns date h)) = [c] \<and>
              length (badges c) \<le> 1 \<and>
              (length (badges c) = 1 \<longleftrightarrow>
                 (\<exists>n \<in> set ns. getFullYear z (mtime n) = 2024 \<and> getMonth z (mtime n) = 2 \<and>
                                getDate z (mtime n) = 15)))"
proof -
  let ?by = "notesByDate z 2024 2 ns"
  let ?dc = "dayCell z now 2024 2 h ?by"
  have fy: "MakeFullYear 2024 = 2024" by (simp add: MakeFullYear_def)
  have wd: "getDay z (newDate z 2024 2 1) = WeekDay (MakeDate (MakeDay 2024 2 1) (MakeTime 0 0 0 0))"
    using getDay_newDate[of z 2024 2 1] k1 by (simp add: fy)
  have first: "take 1 (dayCells (renderMonthView z now prefs ns date h)) = [emptyCell] \<longleftrightarrow>
            WeekDay (MakeDate (MakeDay 2024 2 1) (MakeTime 0 0 0 0)) \<noteq> 1"
    using first_cell_monday_first[OF assms(3), of z now ns date h]
    by (simp only: assms(1,2) wd)
  have dim: "getDate z (newDate z 2024 (2 + 1) 0) = 31"
    using daysInMonth_code[of 2 z 2024] k31 by (simp add: fy march_2024_length)
  have cells: "dayCells (renderMonthView z now prefs ns date h) =
      replicate 4 emptyCell @ map ?dc [1..31]"
    using dim
    by (simp add: renderMonthView_def Let_def assms(1,2,3) wd march_2024_weekday del: upto.simps)
  have "filter (\<lambda>c. cellText c = numberToString 15) (replicate 4 emptyCell) = []"
    using numberToString_nonempty[of 15] by (auto simp: emptyCell_def filter_empty_conv)
  moreover have "filter (\<lambda>c. cellText c = numberToString 15) (map ?dc [1..31]) = [?dc 15]"
    by (rule day_cell_unique) simp_all
  ultimately have one: "filter (\<lambda>c. cellText c = numberToString 15)
      (dayCells (renderMonthView z now prefs ns date h)) = [?dc 15]"
    unfolding cells by (simp del: upto.simps)
  have b: "length (badges (?dc 15)) =
      (if \<exists>n \<in> set ns. inMonth z 2024 2 n \<and> getDate z (mtime n) = 15 then 1 else 0)"
    unfolding dayCell_badges using bucket_nonempty[of 15 z 2024 2 ns] by simp
  have "length (badges (?dc 15)) \<le> 1 \<and>
        (length (badges (?dc 15)) = 1 \<longleftrightarrow>
           (\<exists>n \<in> set ns. getFullYear z (mtime n) = 2024 \<and> getMonth z (mtime n) = 2 \<and>
                          getDate z (mtime n) = 15))"
    unfolding b by (simp add: inMonth_def)
  with one first show ?thesis by blast
qed

lemma new_york_march_2024:
  "keepsDay newYork2024 (MakeDay 2024 2 1) \<and> keepsDay newYork2024 (MakeDay 2024 3 0)"
  by code_simp

text \<open>
  C5: in the month view of March 2024 with Monday as the first day of the week, the first
  cell of the grid is an empty offset cell if and only if 1 March 2024 is not a Monday
  (it is a Friday, and the cell is empty); and the one cell for day 15 carries exactly
  one note-count badge if and only if some note was modified on 15 March 2024, and no
  badge otherwise. This is stated for every offset of local time; it holds as well in a
  zone that changes its offset and keeps 1 and 31 March, such as New York, see
  \<open>march_2024_month_view_zone\<close> and \<open>new_york_march_2024\<close>.
\<close>

theorem march_2024_month_view:
  assumes "getFullYear (fixedOffset tza) date = 2024" and "getMonth (fixedOffset tza) date = 2"
    and "calendarFirstDayOfWeek prefs = 1"
  shows "(take 1 (dayCells (renderMonthView (fixedOffset tza) now prefs ns date h)) = [emptyCell] \<longleftrightarrow>
            WeekDay (MakeDate (MakeDay 2024 2 1) (MakeTime 0 0 0 0)) \<noteq> 1) \<and>
         (\<exists>c. filter (\<lambda>c. cellText c = numberToString 15)
                 (dayCells (renderMonthView (fixedOffset tza) now prefs ns date h)) = [c] \<and>
              length (badges c) \<le> 1 \<and>
              (length (badges c) = 1 \<longleftrightarrow>
                 (\<exists>n \<in> set ns. getFullYear (fixedOffset tza) (mtime n) = 2024 \<and>
                                getMonth (fixedOffset tza) (mtime n) = 2 \<and>
                                getDate (fixedOffset tza) (mtime n) = 15)))"
  by (rule march_2024_month_view_zone[OF assms keepsDay_fixedOffset keepsDay_fixedOffset])

lemma demo_cursor_civil: "getFullYear (fixedOffset 0) demoCursor = 2024 \<and> getMonth (fixedOffset 0) demoCursor = 2"
  by code_simp

lemma demo_note_on_15:
  "list_ex (\<lambda>n. getFullYear (fixedOffset 0) (mtime n) = 2024 \<and> getMonth (fixedOffset 0) (mtime n) = 2 \<and>
                 getDate (fixedOffset 0) (mtime n) = 15) demoNotes"
  by code_simp

theorem march_2024_month_view_witness:
  "take 1 (dayCells (renderMonthView (fixedOffset 0) demoCursor mondayFirst demoNotes demoCursor None)) = [emptyCell] \<and>
   (\<exists>c. filter (\<lambda>c. cellText c = numberToString 15)
          (dayCells (renderMonthView (fixedOffset 0) demoCursor mondayFirst demoNotes demoCursor None)) = [c] \<and>
        length (badges c) = 1)"
proof -
  have p: "calendarFirstDayOfWeek mondayFirst = 1"
    by (simp add: mondayFirst_def)
  have n: "\<exists>n \<in> set demoNotes. getFullYear (fixedOffset 0) (mtime n) = 2024 \<and> getMonth (fixedOffset 0) (mtime n) = 2 \<and>
                 getDate (fixedOffset 0) (mtime n) = 15"
    using demo_note_on_15 by (simp only: list_ex_iff)
  have w: "WeekDay (MakeDate (MakeDay 2024 2 1) (MakeTime 0 0 0 0)) \<noteq> 1"
    by (simp add: march_2024_weekday)
  from march_2024_month_view[OF demo_cursor_civil[THEN conjunct1] demo_cursor_civil[THEN conjunct2] p,
      of demoCursor demoNotes None] n w
  show ?thesis by blast
qed

lemma switchView_cursor: "currentDate (switchView z now ns view) = currentDate view"
  by (simp add: switchView_def Let_def)

lemma switchView_type:
  "calendarViewType (settings (owner (switchView z now ns view))) =
   (case calendarViewType (settings (owner view)) of Year \<Rightarrow> Month | Month \<Rightarrow> Year)"
  by (simp add: switchView_def Let_def saveSettings_def saveData_def updateAllFilesDisplay_def)

lemma switchView_shown:
  "shown (switchView z now ns view) =
   renderCalendar z now (settings (owner (switchView z now ns view))) ns (currentDate view) None"
  by (simp add: switchView_def Let_def)

lemma navigateCalendar_cursor:
  "currentDate (navigateCalendar z now ns direction view) =
   (case calendarViewType (settings (owner view)) of
      Month \<Rightarrow> setMonth z (currentDate view) (getMonth z (currentDate view) + direction)
    | Year \<Rightarrow> setFullYear z (currentDate view) (getFullYear z (currentDate view) + direction))"
  by (simp add: navigateCalendar_def Let_def)

lemma MakeDay_carry: "MakeDay y mm dt = MakeDay (y + mm div 12) (mm mod 12) dt"
  by (simp add: MakeDay_def Let_def div_pos_pos_trivial mod_pos_pos_trivial)

lemma TimeWithinDay_range: "0 \<le> TimeWithinDay t \<and> TimeWithinDay t < msPerDay"
  by (simp add: TimeWithinDay_def msPerDay_def)

lemma setMonth_civil:
  assumes "getDate (fixedOffset tza) t \<le> DaysInMonth (getFullYear (fixedOffset tza) t + mm div 12) (mm mod 12)"
  shows "getFullYear (fixedOffset tza) (setMonth (fixedOffset tza) t mm) = getFullYear (fixedOffset tza) t + mm div 12 \<and>
         getMonth (fixedOffset tza) (setMonth (fixedOffset tza) t mm) = mm mod 12 \<and>
         getDate (fixedOffset tza) (setMonth (fixedOffset tza) t mm) = getDate (fixedOffset tza) t"
proof -
  define l where "l = LocalTime (fixedOffset tza) t"
  define u where "u = MakeDate (MakeDay (YearFromTime l) mm (DateFromTime l)) (TimeWithinDay l)"
  have lu: "LocalTime (fixedOffset tza) (setMonth (fixedOffset tza) t mm) = u"
    by (simp add: setMonth_def Let_def LocalTime_UTC_fixedOffset l_def u_def)
  have "Day u = MakeDay (YearFromTime l) mm (DateFromTime l)"
    unfolding u_def using TimeWithinDay_range[of l] by (intro Day_MakeDate) simp_all
  then have day: "Day u = MakeDay (YearFromTime l + mm div 12) (mm mod 12) (DateFromTime l)"
    by (simp add: MakeDay_carry[symmetric])
  have m: "0 \<le> mm mod 12" "mm mod 12 \<le> 11" by simp_all
  have d1: "1 \<le> DateFromTime l" using DateFromTime_range[of l] by simp
  have d2: "DateFromTime l \<le> DaysInMonth (YearFromTime l + mm div 12) (mm mod 12)"
    using assms by (simp add: getDate_def getFullYear_def l_def)
  from civil_of_day[OF m d1 d2 day] show ?thesis
    by (simp add: getFullYear_def getMonth_def getDate_def lu l_def)
qed

lemma navigateCalendar_month_kept:
  assumes "calendarViewType (settings (owner view)) = Month"
    and "getDate (fixedOffset tza) (currentDate view) \<le> 28"
  shows "getFullYear (fixedOffset tza) (currentDate (navigateCalendar (fixedOffset tza) now ns direction view)) =
           getFullYear (fixedOffset tza) (currentDate view) + (getMonth (fixedOffset tza) (currentDate view) + direction) div 12 \<and>
         getMonth (fixedOffset tza) (currentDate (navigateCalendar (fixedOffset tza) now ns direction view)) =
           (getMonth (fixedOffset tza) (currentDate view) + direction) mod 12 \<and>
         getDate (fixedOffset tza) (currentDate (navigateCalendar (fixedOffset tza) now ns direction view)) =
           getDate (fixedOffset tza) (currentDate view)"
proof -
  let ?mm = "getMonth (fixedOffset tza) (currentDate view) + direction"
  have "getDate (fixedOffset tza) (currentDate view) \<le>
        DaysInMonth (getFullYear (fixedOffset tza) (currentDate view) + ?mm div 12) (?mm mod 12)"
    using assms(2) DaysInMonth_range[of "getFullYear (fixedOffset tza) (currentDate view) + ?mm div 12" "?mm mod 12"]
    by linarith
  from setMonth_civil[OF this] show ?thesis
    by (simp add: navigateCalendar_cursor assms(1))
qed

text \<open>
  C6: \<open>navigateCalendar\<close> is to move the cursor by exactly one calendar month in the month
  view. From a cursor on 31 January 2024, one step forward leaves the cursor on
  2 March 2024: \<open>setMonth\<close> keeps the day of the month, and day 31 of February runs over
  into March, so the calendar shows March and February is skipped. (For a day up to 28
  the month does move by one, see \<open>navigateCalendar_month_kept\<close>, and switching the view
  keeps the cursor, see \<open>switchView_cursor\<close>.)
\<close>

theorem navigateCalendar_skips_february:
  "calendarViewType (settings (owner demoView)) = Month \<and>
   getFullYear (fixedOffset 0) (currentDate demoView) = 2024 \<and>
   getMonth (fixedOffset 0) (currentDate demoView) = 0 \<and>
   getDate (fixedOffset 0) (currentDate demoView) = 31 \<and>
   getFullYear (fixedOffset 0) (currentDate (navigateCalendar (fixedOffset 0) demoJanuary31 demoNotes 1 demoView)) = 2024 \<and>
   getMonth (fixedOffset 0) (currentDate (navigateCalendar (fixedOffset 0) demoJanuary31 demoNotes 1 demoView)) = 2 \<and>
   getDate (fixedOffset 0) (currentDate (navigateCalendar (fixedOffset 0) demoJanuary31 demoNotes 1 demoView)) = 2"
proof -
  have v: "calendarViewType (settings (owner demoView)) = Month"
    by (simp add: demoView_def mondayFirst_def)
  have c: "currentDate demoView = demoJanuary31" by (simp add: demoView_def)
  have before: "getFullYear (fixedOffset 0) demoJanuary31 = 2024 \<and> getMonth (fixedOffset 0) demoJanuary31 = 0 \<and>
      getDate (fixedOffset 0) demoJanuary31 = 31"
    by code_simp
  have after: "getFullYear (fixedOffset 0) (setMonth (fixedOffset 0) demoJanuary31 (getMonth (fixedOffset 0) demoJanuary31 + 1)) = 2024 \<and>
      getMonth (fixedOffset 0) (setMonth (fixedOffset 0) demoJanuary31 (getMonth (fixedOffset 0) demoJanuary31 + 1)) = 2 \<and>
      getDate (fixedOffset 0) (setMonth (fixedOffset 0) demoJanuary31 (getMonth (fixedOffset 0) demoJanuary31 + 1)) = 2"
    by code_simp
  show ?thesis
    unfolding navigateCalendar_cursor v c using before after by simp
qed

end
